theory Spec2Isabelle
  imports Complex_Main "HOL-Library.Word"
begin

unbundle bit_operations_syntax

section \<open>Data model\<close>

text \<open>
  The amortized noise generator of \<^verbatim>\<open>2 Generate with Amortized Noise\<close>.
  C++ \<^verbatim>\<open>float\<close> values are modelled by real numbers: \<^verbatim>\<open>cosf\<close>,
  \<^verbatim>\<open>sinf\<close>, \<^verbatim>\<open>log\<close> are the real functions and rounding is not modelled.
  \<^verbatim>\<open>unsigned int\<close> is a 32-bit word, \<^verbatim>\<open>unsigned long long\<close> a 64-bit word.
  The tile coordinates \<^verbatim>\<open>x\<close>, \<^verbatim>\<open>y\<close> of \<^verbatim>\<open>generate\<close> are C \<^verbatim>\<open>int\<close>s that are
  doubled per octave and converted to \<^verbatim>\<open>unsigned int\<close> when hashed; they are kept
  as 32-bit words, whose arithmetic wraps around. Granularities, subcell counts, octave
  numbers and array indices are mathematical integers; a granularity is only ever halved,
  and a subcell count is only used while it times the granularity is at most the
  granularity passed in.
  A \<^verbatim>\<open>float*\<close> table is a function from index to value, a \<^verbatim>\<open>float**\<close> cell a function
  from row and column index to value (distinct rows do not alias).
\<close>

type_synonym u32 = "32 word"
type_synonym u64 = "64 word"
type_synonym table = "int \<Rightarrow> real"
type_synonym cell = "int \<Rightarrow> int \<Rightarrow> real"

text \<open>
  \<^verbatim>\<open>MurmurHash3_x86_32(&key, 8, seed, &result)\<close> comes from \<^verbatim>\<open>MurmurHash3.h\<close>, which is
  not part of the sources. Every function that hashes takes it as the parameter \<open>mh\<close>:
  the 8-byte key and the seed give the 32-bit result.
\<close>

type_synonym murmur = "u64 \<Rightarrow> u32 \<Rightarrow> u32"

text \<open>The members of \<^verbatim>\<open>CInfiniteAmortizedNoise2D\<close> (InfiniteAmortizedNoise2D.h).\<close>

record noise2d =
  uax :: table
  vax :: table
  ubx :: table
  vbx :: table
  uay :: table
  vay :: table
  uby :: table
  vby :: table
  spline :: table
  seed :: u32

text \<open>
  \<^verbatim>\<open>CTerrainGenerator\<close> derives from it (TerrainGenerator.h). The function-local
  \<^verbatim>\<open>static const float scale\<close> of \<^verbatim>\<open>ExpHash(x, max)\<close> is program state that lives
  across calls: \<open>None\<close> before the first call, afterwards the value computed from the
  \<^verbatim>\<open>max\<close> of that first call. The terrain generator is its only caller, so the
  field \<open>exp_scale\<close> carries it.
\<close>

record terrain = noise2d +
  seed1 :: u32
  seed2 :: u32
  omega :: real
  exp_scale :: "real option"

section \<open>Common.h\<close>

definition lerp :: "real \<Rightarrow> real \<Rightarrow> real \<Rightarrow> real" where
  "lerp t a b = a + t * (b - a)"

definition s_curve2 :: "real \<Rightarrow> real" where
  "s_curve2 t = t * t * t * (10 + 3 * t * (2 * t - 5))"

section \<open>Loops and integer division\<close>

text \<open>\<^verbatim>\<open>for(int i = i0; i < n; i++) body\<close>, the state passed along.\<close>

function for_loop :: "int \<Rightarrow> int \<Rightarrow> (int \<Rightarrow> 's \<Rightarrow> 's) \<Rightarrow> 's \<Rightarrow> 's" where
  "for_loop i n body s = (if i < n then for_loop (i + 1) n body (body i s) else s)"
  by pat_completeness auto
termination
  by (relation "measure (\<lambda>(i, n, body, s). nat (n - i))") auto

text \<open>\<^verbatim>\<open>for(int i = i0; i >= 0; i--) body\<close>.\<close>

function down_loop :: "int \<Rightarrow> (int \<Rightarrow> 's \<Rightarrow> 's) \<Rightarrow> 's \<Rightarrow> 's" where
  "down_loop i body s = (if 0 \<le> i then down_loop (i - 1) body (body i s) else s)"
  by pat_completeness auto
termination
  by (relation "measure (\<lambda>(i, body, s). nat (i + 1))") auto

text \<open>\<^verbatim>\<open>n /= 2\<close> on a C \<^verbatim>\<open>int\<close>: the quotient is truncated towards zero.\<close>

definition half :: "int \<Rightarrow> int" where
  "half n = (if n < 0 then - ((- n) div 2) else n div 2)"

section \<open>InfiniteAmortizedNoise2D.cpp\<close>

definition FillUp :: "table \<Rightarrow> real \<Rightarrow> int \<Rightarrow> table" where
  "FillUp t s n =
     (let d = s / real_of_int n;
          t = t(0 := 0)
      in for_loop 1 n (\<lambda>i t. t(i := t (i - 1) + d)) t)"

definition FillDn :: "table \<Rightarrow> real \<Rightarrow> int \<Rightarrow> table" where
  "FillDn t s n =
     (let d = - s / real_of_int n;
          t = t(n - 1 := d)
      in down_loop (n - 2) (\<lambda>i t. t(i := t (i + 1) + d)) t)"

definition hash_key :: "u32 \<Rightarrow> u32 \<Rightarrow> u64" where
  "hash_key x y = push_bit 32 (ucast x) OR ucast y"

definition h :: "murmur \<Rightarrow> ('a noise2d_scheme) \<Rightarrow> u32 \<Rightarrow> u32 \<Rightarrow> u32" where
  "h mh g x y = mh (hash_key x y) (seed g)"

definition to_float :: "u32 \<Rightarrow> real" where
  "to_float b = real (unat b)"

definition initEdgeTables ::
  "murmur \<Rightarrow> ('a noise2d_scheme) \<Rightarrow> u32 \<Rightarrow> u32 \<Rightarrow> int \<Rightarrow> 'a noise2d_scheme" where
  "initEdgeTables mh g x0 y0 n =
     (let b00 = h mh g x0 y0;
          b01 = h mh g x0 (y0 + 1);
          b10 = h mh g (x0 + 1) y0;
          b11 = h mh g (x0 + 1) (y0 + 1);
          g = g\<lparr>uax := FillUp (uax g) (cos (to_float b00)) n\<rparr>;
          g = g\<lparr>vax := FillDn (vax g) (cos (to_float b01)) n\<rparr>;
          g = g\<lparr>ubx := FillUp (ubx g) (cos (to_float b10)) n\<rparr>;
          g = g\<lparr>vbx := FillDn (vbx g) (cos (to_float b11)) n\<rparr>;
          g = g\<lparr>uay := FillUp (uay g) (sin (to_float b00)) n\<rparr>;
          g = g\<lparr>vay := FillUp (vay g) (sin (to_float b01)) n\<rparr>;
          g = g\<lparr>uby := FillDn (uby g) (sin (to_float b10)) n\<rparr>;
          g = g\<lparr>vby := FillDn (vby g) (sin (to_float b11)) n\<rparr>
      in g)"

definition initSplineTable :: "('a noise2d_scheme) \<Rightarrow> int \<Rightarrow> 'a noise2d_scheme" where
  "initSplineTable g n =
     g\<lparr>spline :=
         for_loop 0 n (\<lambda>i sp. let t = real_of_int i / real_of_int n in sp(i := s_curve2 t))
           (spline g)\<rparr>"

definition getNoise :: "('a noise2d_scheme) \<Rightarrow> int \<Rightarrow> int \<Rightarrow> real" where
  "getNoise g i j =
     (let u = uax g j + uay g i;
          v = vax g j + vay g i;
          a = lerp (spline g j) u v;
          u = ubx g j + uby g i;
          v = vbx g j + vby g i;
          b = lerp (spline g j) u v
      in lerp (spline g i) a b)"

text \<open>The four-argument overload of \<^verbatim>\<open>getNoise\<close>, which copies one octave into a subcell.\<close>

definition getNoise_cell :: "('a noise2d_scheme) \<Rightarrow> int \<Rightarrow> int \<Rightarrow> int \<Rightarrow> cell \<Rightarrow> cell" where
  "getNoise_cell g n i0 j0 c =
     for_loop 0 n (\<lambda>i. for_loop 0 n (\<lambda>j c.
       c(i0 + i := (c (i0 + i))(j0 + j := getNoise g i j)))) c"

definition addNoise ::
  "('a noise2d_scheme) \<Rightarrow> int \<Rightarrow> int \<Rightarrow> int \<Rightarrow> real \<Rightarrow> cell \<Rightarrow> cell" where
  "addNoise g n i0 j0 scale c =
     for_loop 0 n (\<lambda>i. for_loop 0 n (\<lambda>j c.
       c(i0 + i := (c (i0 + i))(j0 + j := c (i0 + i) (j0 + j) + scale * getNoise g i j)))) c"

text \<open>
  \<^verbatim>\<open>initEdgeTables\<close> is virtual: \<^verbatim>\<open>generate\<close> calls the one of the object's class.
  The model passes it as the argument \<open>iet\<close>.
\<close>

type_synonym 'a edge_init = "'a noise2d_scheme \<Rightarrow> u32 \<Rightarrow> u32 \<Rightarrow> int \<Rightarrow> 'a noise2d_scheme"

text \<open>The skip loop of \<^verbatim>\<open>generate\<close>: granularity and subcell count after it.\<close>

definition skip_octaves :: "int \<Rightarrow> int \<Rightarrow> int \<times> int" where
  "skip_octaves m0 n = for_loop 1 m0 (\<lambda>i (n, r). (half n, r + r)) (n, 1)"

text \<open>The loop over the subcells of the first generated octave.\<close>

definition first_octave ::
  "'a edge_init \<Rightarrow> u32 \<Rightarrow> u32 \<Rightarrow> int \<Rightarrow> int \<Rightarrow> 'a noise2d_scheme \<times> cell \<Rightarrow> 'a noise2d_scheme \<times> cell" where
  "first_octave iet x y n r =
     for_loop 0 r (\<lambda>i0. for_loop 0 r (\<lambda>j0 (g, c).
       let g = iet g (x + word_of_int i0) (y + word_of_int j0) n
       in (g, getNoise_cell g n (i0 * n) (j0 * n) c)))"

text \<open>The loop over the subcells of a later octave.\<close>

definition add_octave ::
  "'a edge_init \<Rightarrow> u32 \<Rightarrow> u32 \<Rightarrow> int \<Rightarrow> int \<Rightarrow> real \<Rightarrow> 'a noise2d_scheme \<times> cell \<Rightarrow> 'a noise2d_scheme \<times> cell" where
  "add_octave iet x y n r scale =
     for_loop 0 r (\<lambda>i0. for_loop 0 r (\<lambda>j0 (g, c).
       let g = iet g (x + word_of_int i0) (y + word_of_int j0) n
       in (g, addNoise g n (i0 * n) (j0 * n) scale c)))"

text \<open>\<^verbatim>\<open>for(int k = m0; k < m1 && n >= 2; k++)\<close>: the octaves after the first.\<close>

function other_octaves ::
  "'a edge_init \<Rightarrow> int \<Rightarrow> int \<Rightarrow> int \<Rightarrow> int \<Rightarrow> u32 \<Rightarrow> u32 \<Rightarrow> real \<Rightarrow>
   'a noise2d_scheme \<times> cell \<Rightarrow> real \<times> 'a noise2d_scheme \<times> cell" where
  "other_octaves iet k m1 n r x y scale gc =
     (if k < m1 \<and> 2 \<le> n then
        let n = half n; r = r + r; x = x + x; y = y + y; scale = scale * 0.5;
            gc = (initSplineTable (fst gc) n, snd gc);
            gc = add_octave iet x y n r scale gc
        in other_octaves iet (k + 1) m1 n r x y scale gc
      else (scale, gc))"
  by pat_completeness auto
termination
  by (relation "measure (\<lambda>(iet, k, m1, n, r, x, y, scale, gc). nat (m1 - k))") auto

text \<open>\<^verbatim>\<open>generate\<close> returns the scale; the generator and the cell are returned as updated.\<close>

definition generate ::
  "'a edge_init \<Rightarrow> 'a noise2d_scheme \<Rightarrow> u32 \<Rightarrow> u32 \<Rightarrow> int \<Rightarrow> int \<Rightarrow> int \<Rightarrow> cell \<Rightarrow>
   real \<times> 'a noise2d_scheme \<times> cell" where
  "generate iet g x y m0 m1 n c =
     (let (n, r) = skip_octaves m0 n
      in if n < 2 then (1, g, c)
         else
           let g = initSplineTable g n;
               gc = first_octave iet x y n r (g, c);
               (scale, gc) = other_octaves iet m0 m1 n r x y 1 gc
           in (sqrt 2 / (2 - scale), gc))"

section \<open>ExponentialHash.cpp\<close>

definition UniformHash :: "u32 \<Rightarrow> u32 \<Rightarrow> real" where
  "UniformHash x mx = (to_float x + 1) / (to_float mx + 2)"

text \<open>
  \<^verbatim>\<open>ExpHash(x, max)\<close>. Its \<^verbatim>\<open>static const float scale\<close> is initialised by the first
  call and kept: the function takes the static's state and returns it with the value.
  For \<^verbatim>\<open>max = 0\<close> the C++ divides by \<^verbatim>\<open>log(1) = 0\<close>, where real division gives 0; the
  generator only passes \<^verbatim>\<open>max = 0xFFFFFFFF\<close>.
\<close>

definition ExpHash :: "u32 \<Rightarrow> u32 \<Rightarrow> real option \<Rightarrow> real \<times> real option" where
  "ExpHash x mx st =
     (let scale = (case st of None \<Rightarrow> 1 / ln (0.5 * (to_float mx + 2)) | Some s \<Rightarrow> s)
      in (- scale * ln (0.5 * to_float x + 1) + 1, Some scale))"

text \<open>\<^verbatim>\<open>ExpHash(x, y, m, omega)\<close>; \<^verbatim>\<open>clip(x,a,b)\<close> is \<^verbatim>\<open>min(max(x, a), b)\<close>.\<close>

definition ExpHash_omega ::
  "u32 \<Rightarrow> u32 \<Rightarrow> u32 \<Rightarrow> real \<Rightarrow> real option \<Rightarrow> real \<times> real option" where
  "ExpHash_omega x y m om st =
     (let om = min (max om 0) 1
      in if UniformHash y m < om then (UniformHash x m, st) else ExpHash x m st)"

section \<open>TerrainGenerator.cpp\<close>

text \<open>\<^verbatim>\<open>CTerrainGenerator::h(x, y, seed)\<close>, the overload with an explicit seed.\<close>

definition h_seed :: "murmur \<Rightarrow> u32 \<Rightarrow> u32 \<Rightarrow> u32 \<Rightarrow> u32" where
  "h_seed mh x y sd = mh (hash_key x y) sd"

definition initEdgeTables_terrain ::
  "murmur \<Rightarrow> ('a terrain_scheme) \<Rightarrow> u32 \<Rightarrow> u32 \<Rightarrow> int \<Rightarrow> 'a terrain_scheme" where
  "initEdgeTables_terrain mh g x0 y0 n =
     (let b00 = h mh g x0 y0;
          b01 = h mh g x0 (y0 + 1);
          b10 = h mh g (x0 + 1) y0;
          b11 = h mh g (x0 + 1) (y0 + 1);
          mx = 0xFFFFFFFF;
          (m00, st) = ExpHash_omega (h_seed mh x0 y0 (seed1 g)) (h_seed mh x0 y0 (seed2 g))
                        mx (omega g) (exp_scale g);
          (m01, st) = ExpHash_omega (h_seed mh x0 (y0 + 1) (seed1 g)) (h_seed mh x0 (y0 + 1) (seed2 g))
                        mx (omega g) st;
          (m10, st) = ExpHash_omega (h_seed mh (x0 + 1) y0 (seed1 g)) (h_seed mh (x0 + 1) y0 (seed2 g))
                        mx (omega g) st;
          (m11, st) = ExpHash_omega (h_seed mh (x0 + 1) (y0 + 1) (seed1 g))
                        (h_seed mh (x0 + 1) (y0 + 1) (seed2 g)) mx (omega g) st;
          g = g\<lparr>exp_scale := st\<rparr>;
          g = g\<lparr>uax := FillUp (uax g) (m00 * cos (to_float b00)) n\<rparr>;
          g = g\<lparr>vax := FillDn (vax g) (m01 * cos (to_float b01)) n\<rparr>;
          g = g\<lparr>ubx := FillUp (ubx g) (m10 * cos (to_float b10)) n\<rparr>;
          g = g\<lparr>vbx := FillDn (vbx g) (m11 * cos (to_float b11)) n\<rparr>;
          g = g\<lparr>uay := FillUp (uay g) (m00 * sin (to_float b00)) n\<rparr>;
          g = g\<lparr>vay := FillUp (vay g) (m01 * sin (to_float b01)) n\<rparr>;
          g = g\<lparr>uby := FillDn (uby g) (m10 * sin (to_float b10)) n\<rparr>;
          g = g\<lparr>vby := FillDn (vby g) (m11 * sin (to_float b11)) n\<rparr>
      in g)"

section \<open>The noise without the tables\<close>

text \<open>
  The gradient \<^verbatim>\<open>CInfiniteAmortizedNoise2D::initEdgeTables\<close> uses for the corner at the
  lattice point \<open>(x, y)\<close>: the cosine and sine of the hash of the point, as a function of
  the seed and the point.
\<close>

definition gradient :: "murmur \<Rightarrow> u32 \<Rightarrow> u32 \<Rightarrow> u32 \<Rightarrow> real \<times> real" where
  "gradient mh sd x y =
     (cos (to_float (mh (hash_key x y) sd)), sin (to_float (mh (hash_key x y) sd)))"

text \<open>
  The value the static of \<^verbatim>\<open>ExpHash(x, max)\<close> takes in the terrain generator, where every
  call passes \<^verbatim>\<open>max = 0xFFFFFFFF\<close>, and the states the static can be in there.
\<close>

definition exp_scale0 :: real where
  "exp_scale0 = 1 / ln (0.5 * (to_float 0xFFFFFFFF + 2))"

definition exp_scale_ok :: "real option \<Rightarrow> bool" where
  "exp_scale_ok st = (st = None \<or> st = Some exp_scale0)"

text \<open>
  The magnitude and the gradient \<^verbatim>\<open>CTerrainGenerator::initEdgeTables\<close> uses for the corner
  at \<open>(x, y)\<close>, as a function of the seeds, \<open>omega\<close> and the point.
\<close>

definition magnitude :: "murmur \<Rightarrow> u32 \<Rightarrow> u32 \<Rightarrow> real \<Rightarrow> u32 \<Rightarrow> u32 \<Rightarrow> real" where
  "magnitude mh sd1 sd2 om x y =
     fst (ExpHash_omega (h_seed mh x y sd1) (h_seed mh x y sd2) 0xFFFFFFFF om None)"

definition gradient_terrain ::
  "murmur \<Rightarrow> u32 \<Rightarrow> u32 \<Rightarrow> u32 \<Rightarrow> real \<Rightarrow> u32 \<Rightarrow> u32 \<Rightarrow> real \<times> real" where
  "gradient_terrain mh sd sd1 sd2 om x y =
     (magnitude mh sd1 sd2 om x y * cos (to_float (mh (hash_key x y) sd)),
      magnitude mh sd1 sd2 om x y * sin (to_float (mh (hash_key x y) sd)))"

text \<open>What a terrain generator keeps over its calls: the seeds, \<open>omega\<close>, and a static
  that is not yet initialised or holds the value for \<^verbatim>\<open>0xFFFFFFFF\<close>.\<close>

definition terrain_inv :: "u32 \<Rightarrow> u32 \<Rightarrow> u32 \<Rightarrow> real \<Rightarrow> 'a terrain_scheme \<Rightarrow> bool" where
  "terrain_inv sd sd1 sd2 om g =
     (seed g = sd \<and> seed1 g = sd1 \<and> seed2 g = sd2 \<and> omega g = om \<and> exp_scale_ok (exp_scale g))"

text \<open>
  \<^verbatim>\<open>getNoise(i, j)\<close> for the subcell at \<open>(x0, y0)\<close> with the table entries written out:
  the value for the gradient field \<open>G\<close> at granularity \<open>n\<close>.
\<close>

definition pnoise :: "(u32 \<Rightarrow> u32 \<Rightarrow> real \<times> real) \<Rightarrow> int \<Rightarrow> u32 \<Rightarrow> u32 \<Rightarrow> int \<Rightarrow> int \<Rightarrow> real" where
  "pnoise G n x0 y0 i j =
     (let d = (\<lambda>s. s / real_of_int n);
          u = real_of_int j * d (fst (G x0 y0)) + real_of_int i * d (snd (G x0 y0));
          v = real_of_int (n - j) * - d (fst (G x0 (y0 + 1))) + real_of_int i * d (snd (G x0 (y0 + 1)));
          a = lerp (s_curve2 (real_of_int j / real_of_int n)) u v;
          u = real_of_int j * d (fst (G (x0 + 1) y0)) + real_of_int (n - i) * - d (snd (G (x0 + 1) y0));
          v = real_of_int (n - j) * - d (fst (G (x0 + 1) (y0 + 1)))
              + real_of_int (n - i) * - d (snd (G (x0 + 1) (y0 + 1)));
          b = lerp (s_curve2 (real_of_int j / real_of_int n)) u v
      in lerp (s_curve2 (real_of_int i / real_of_int n)) a b)"

text \<open>The value one octave has at the position \<open>(a, b)\<close> of the cell.\<close>

definition octave_value ::
  "(u32 \<Rightarrow> u32 \<Rightarrow> real \<times> real) \<Rightarrow> u32 \<Rightarrow> u32 \<Rightarrow> int \<Rightarrow> int \<Rightarrow> int \<Rightarrow> real" where
  "octave_value G x y n a b =
     pnoise G n (x + word_of_int (a div n)) (y + word_of_int (b div n)) (a mod n) (b mod n)"

definition in_square :: "int \<Rightarrow> int \<Rightarrow> int \<Rightarrow> bool" where
  "in_square s a b = (0 \<le> a \<and> a < s \<and> 0 \<le> b \<and> b < s)"

text \<open>The loops of \<^verbatim>\<open>generate\<close> over these values: the cell and the scale only.\<close>

function noise_octaves ::
  "(u32 \<Rightarrow> u32 \<Rightarrow> real \<times> real) \<Rightarrow> int \<Rightarrow> int \<Rightarrow> int \<Rightarrow> int \<Rightarrow> u32 \<Rightarrow> u32 \<Rightarrow> real \<Rightarrow> cell \<Rightarrow>
   real \<times> cell" where
  "noise_octaves G k m1 n r x y scale c =
     (if k < m1 \<and> 2 \<le> n then
        let n = half n; r = r + r; x = x + x; y = y + y; scale = scale * 0.5;
            c = (\<lambda>a b. if in_square (r * n) a b then c a b + scale * octave_value G x y n a b
                        else c a b)
        in noise_octaves G (k + 1) m1 n r x y scale c
      else (scale, c))"
  by pat_completeness auto
termination
  by (relation "measure (\<lambda>(G, k, m1, n, r, x, y, scale, c). nat (m1 - k))") auto

definition noise_generate ::
  "(u32 \<Rightarrow> u32 \<Rightarrow> real \<times> real) \<Rightarrow> u32 \<Rightarrow> u32 \<Rightarrow> int \<Rightarrow> int \<Rightarrow> int \<Rightarrow> cell \<Rightarrow> real \<times> cell" where
  "noise_generate G x y m0 m1 n c =
     (let (n, r) = skip_octaves m0 n
      in if n < 2 then (1, c)
         else
           let c = (\<lambda>a b. if in_square (r * n) a b then octave_value G x y n a b else c a b);
               (scale, c) = noise_octaves G m0 m1 n r x y 1 c
           in (sqrt 2 / (2 - scale), c))"

section \<open>Inputs for evaluation\<close>

text \<open>
  A stand-in for the hash that is outside the sources, to evaluate calls at concrete inputs:
  0 at the lattice points (0, 0) and (1, 0), whose keys are 0 and \<open>2\<^sup>3\<^sup>2\<close>, and 1 elsewhere.
\<close>

definition mh0 :: murmur where
  "mh0 key sd = (if key = 0 \<or> key = 2 ^ 32 then 0 else 1)"

text \<open>A generator whose tables hold zeros, with seed 9999.\<close>

definition gen0 :: noise2d where
  "gen0 = \<lparr>uax = (\<lambda>_. 0), vax = (\<lambda>_. 0), ubx = (\<lambda>_. 0), vbx = (\<lambda>_. 0),
           uay = (\<lambda>_. 0), vay = (\<lambda>_. 0), uby = (\<lambda>_. 0), vby = (\<lambda>_. 0),
           spline = (\<lambda>_. 0), seed = 9999\<rparr>"

text \<open>A terrain generator with the same tables and seed, \<open>omega = 0.3\<close>, before any call.\<close>

definition terrain0 :: terrain where
  "terrain0 = \<lparr>uax = (\<lambda>_. 0), vax = (\<lambda>_. 0), ubx = (\<lambda>_. 0), vbx = (\<lambda>_. 0),
           uay = (\<lambda>_. 0), vay = (\<lambda>_. 0), uby = (\<lambda>_. 0), vby = (\<lambda>_. 0),
           spline = (\<lambda>_. 0), seed = 9999, seed1 = 9999 + 9999, seed2 = 9999 + 314159,
           omega = 3 / 10, exp_scale = None\<rparr>"

section \<open>Loop rules\<close>

declare for_loop.simps [simp del]
declare down_loop.simps [simp del]
declare other_octaves.simps [simp del]
declare noise_octaves.simps [simp del]

lemma for_loop_done: "n \<le> i \<Longrightarrow> for_loop i n f s = s"
  by (simp add: for_loop.simps)

lemma for_loop_step: "i < n \<Longrightarrow> for_loop i n f s = for_loop (i + 1) n f (f i s)"
  by (subst for_loop.simps) simp

lemma for_loop_right: "i \<le> n \<Longrightarrow> for_loop i (n + 1) f s = f n (for_loop i n f s)"
proof (induction i n f s rule: for_loop.induct)
  case (1 i n body s)
  show ?case
  proof (cases "i < n")
    case True
    then show ?thesis using 1 by (simp add: for_loop_step)
  next
    case False
    with 1(2) have "i = n" by simp
    then show ?thesis by (simp add: for_loop_step for_loop_done)
  qed
qed

text \<open>The tables and the cell loops in closed form.\<close>

lemma FillUp_eq:
  assumes "0 \<le> k" and "k < n"
  shows "FillUp t s n k = real_of_int k * (s / real_of_int n)"
proof -
  define d where "d = s / real_of_int n"
  define f where "f = (\<lambda>i (t::table). t(i := t (i - 1) + d))"
  have "\<forall>k. 0 \<le> k \<and> k < m \<longrightarrow> for_loop 1 m f (t(0 := 0)) k = real_of_int k * d" if "1 \<le> m" for m
    using that
  proof (induction m rule: int_ge_induct)
    case base
    then show ?case by (auto simp: for_loop_done)
  next
    case (step m)
    show ?case
    proof (intro allI impI)
      fix k assume k: "0 \<le> k \<and> k < m + 1"
      have r: "for_loop 1 (m + 1) f (t(0 := 0)) = f m (for_loop 1 m f (t(0 := 0)))"
        using step.hyps by (rule for_loop_right)
      show "for_loop 1 (m + 1) f (t(0 := 0)) k = real_of_int k * d"
      proof (cases "k = m")
        case True
        have "0 \<le> m - 1 \<and> m - 1 < m" using step.hyps by simp
        then have "for_loop 1 m f (t(0 := 0)) (m - 1) = real_of_int (m - 1) * d"
          using step.IH by blast
        moreover have "f m (for_loop 1 m f (t(0 := 0))) m = for_loop 1 m f (t(0 := 0)) (m - 1) + d"
          by (simp add: f_def)
        ultimately show ?thesis unfolding r True by (simp add: algebra_simps)
      next
        case False
        then have "0 \<le> k \<and> k < m" using k by simp
        then have "for_loop 1 m f (t(0 := 0)) k = real_of_int k * d"
          using step.IH by blast
        moreover have "f m (for_loop 1 m f (t(0 := 0))) k = for_loop 1 m f (t(0 := 0)) k"
          using False by (simp add: f_def)
        ultimately show ?thesis unfolding r by simp
      qed
    qed
  qed
  then show ?thesis using assms
    by (simp add: FillUp_def Let_def d_def f_def)
qed

lemma down_loop_done: "i < 0 \<Longrightarrow> down_loop i f s = s"
  by (simp add: down_loop.simps)

lemma down_loop_step: "0 \<le> i \<Longrightarrow> down_loop i f s = down_loop (i - 1) f (f i s)"
  by (subst down_loop.simps) simp

text \<open>After the part of a downward loop from \<open>i\<close> to \<open>m\<close>, the rest runs from \<open>m - 1\<close>.\<close>

lemma FillDn_loop:
  "- 1 \<le> i \<Longrightarrow> i < k \<Longrightarrow> (\<forall>j. i < j \<and> j \<le> k \<longrightarrow> t j = real_of_int (k + 1 - j) * d) \<Longrightarrow>
   (\<forall>j. 0 \<le> j \<and> j \<le> k \<longrightarrow>
      down_loop i (\<lambda>i t. t(i := t (i + 1) + d)) t j = real_of_int (k + 1 - j) * d)"
proof (induction i "\<lambda>i (t::table). t(i := t (i + 1) + d)" t rule: down_loop.induct)
  case (1 i t)
  show ?case
  proof (cases "0 \<le> i")
    case True
    let ?t = "t(i := t (i + 1) + d)"
    have "\<forall>j. i - 1 < j \<and> j \<le> k \<longrightarrow> ?t j = real_of_int (k + 1 - j) * d"
    proof (intro allI impI)
      fix j assume j: "i - 1 < j \<and> j \<le> k"
      show "?t j = real_of_int (k + 1 - j) * d"
      proof (cases "j = i")
        case True
        have "i < i + 1 \<and> i + 1 \<le> k" using 1(3) by simp
        then have "t (i + 1) = real_of_int (k + 1 - (i + 1)) * d"
          using 1(4) by blast
        then show ?thesis using True by (simp add: algebra_simps)
      next
        case False
        then show ?thesis using j 1(4) by simp
      qed
    qed
    with 1(1)[OF True] True 1(3) have
      "\<forall>j. 0 \<le> j \<and> j \<le> k \<longrightarrow>
         down_loop (i - 1) (\<lambda>i t. t(i := t (i + 1) + d)) ?t j = real_of_int (k + 1 - j) * d"
      by simp
    then show ?thesis using True by (simp add: down_loop_step)
  next
    case False
    with 1(2) have "i = - 1" by simp
    then show ?thesis using 1(4) by (simp add: down_loop_done)
  qed
qed

lemma FillDn_eq:
  assumes "0 \<le> k" and "k < n"
  shows "FillDn t s n k = real_of_int (n - k) * (- s / real_of_int n)"
proof -
  define d where "d = - s / real_of_int n"
  have "\<forall>j. 0 \<le> j \<and> j \<le> n - 1 \<longrightarrow>
      down_loop (n - 2) (\<lambda>i t. t(i := t (i + 1) + d)) (t(n - 1 := d)) j = real_of_int (n - 1 + 1 - j) * d"
    by (rule FillDn_loop) (use assms in auto)
  then show ?thesis using assms by (simp add: FillDn_def Let_def d_def)
qed

lemma initSplineTable_eq:
  assumes "0 \<le> i" and "i < n"
  shows "spline (initSplineTable g n) i = s_curve2 (real_of_int i / real_of_int n)"
proof -
  define f where "f = (\<lambda>i (sp::table). let t = real_of_int i / real_of_int n in sp(i := s_curve2 t))"
  have "\<forall>i. 0 \<le> i \<and> i < m \<longrightarrow> for_loop 0 m f (spline g) i = s_curve2 (real_of_int i / real_of_int n)"
    if "0 \<le> m" for m
    using that
  proof (induction m rule: int_ge_induct)
    case base
    then show ?case by simp
  next
    case (step m)
    then show ?case by (simp add: for_loop_right f_def Let_def)
  qed
  then show ?thesis using assms by (simp add: initSplineTable_def f_def)
qed

section \<open>The spline table\<close>

text \<open>
  C8. For every granularity \<open>n \<ge> 1\<close> and every index \<open>0 \<le> i < n\<close>, the spline table
  after \<^verbatim>\<open>initSplineTable(n)\<close> holds the quintic smoothstep \<open>6t\<^sup>5 - 15t\<^sup>4 + 10t\<^sup>3\<close>
  at \<open>t = i/n\<close>, whatever the table held before.
\<close>

theorem initSplineTable_quintic:
  assumes "1 \<le> n" and "0 \<le> i" and "i < n"
  shows "spline (initSplineTable g n) i =
         6 * (real_of_int i / real_of_int n) ^ 5 - 15 * (real_of_int i / real_of_int n) ^ 4
           + 10 * (real_of_int i / real_of_int n) ^ 3"
proof -
  have "s_curve2 t = 6 * t ^ 5 - 15 * t ^ 4 + 10 * t ^ 3" for t
    by (simp add: s_curve2_def algebra_simps power_numeral_reduce)
  then show ?thesis using assms(2,3) by (simp add: initSplineTable_eq)
qed

theorem initSplineTable_quintic_witness:
  "(1::int) \<le> 4 \<and> (0::int) \<le> 2 \<and> (2::int) < 4 \<and> spline (initSplineTable gen0 4) 2 = 1 / 2"
  using initSplineTable_quintic [of 4 2 gen0] by (simp add: power_numeral_reduce)

section \<open>Cell loops and the skip loop\<close>

lemma row_loop_eq:
  "0 \<le> m \<Longrightarrow>
   for_loop 0 m (\<lambda>j c. c(p := (c p)(j0 + j := F j (c p (j0 + j))))) c =
   (\<lambda>a b. if a = p \<and> j0 \<le> b \<and> b < j0 + m then F (b - j0) (c a b) else c a b)"
proof (induction m rule: int_ge_induct)
  case base
  then show ?case by (auto simp: for_loop_done fun_eq_iff)
next
  case (step m)
  show ?case
    unfolding for_loop_right[OF step.hyps] step.IH
    using step.hyps by (intro ext) auto
qed

lemma rect_loop_eq:
  assumes "0 \<le> n"
  shows "0 \<le> m \<Longrightarrow>
   for_loop 0 m (\<lambda>i. for_loop 0 n (\<lambda>j c. c(i0 + i := (c (i0 + i))(j0 + j := F i j (c (i0 + i) (j0 + j)))))) c =
   (\<lambda>a b. if i0 \<le> a \<and> a < i0 + m \<and> j0 \<le> b \<and> b < j0 + n then F (a - i0) (b - j0) (c a b) else c a b)"
proof (induction m rule: int_ge_induct)
  case base
  then show ?case by (auto simp: for_loop_done fun_eq_iff)
next
  case (step m)
  show ?case
    unfolding for_loop_right[OF step.hyps] step.IH
    unfolding row_loop_eq[OF assms]
    using step.hyps by (intro ext) auto
qed

lemma getNoise_cell_eq:
  "getNoise_cell g n i0 j0 c =
   (\<lambda>a b. if i0 \<le> a \<and> a < i0 + n \<and> j0 \<le> b \<and> b < j0 + n
          then getNoise g (a - i0) (b - j0) else c a b)"
proof (cases "0 \<le> n")
  case True
  show ?thesis
    unfolding getNoise_cell_def
    using rect_loop_eq[OF True True, where F="\<lambda>i j v. getNoise g i j"] by simp
next
  case False
  then show ?thesis by (auto simp: getNoise_cell_def for_loop_done fun_eq_iff)
qed

lemma addNoise_eq:
  "addNoise g n i0 j0 scale c =
   (\<lambda>a b. if i0 \<le> a \<and> a < i0 + n \<and> j0 \<le> b \<and> b < j0 + n
          then c a b + scale * getNoise g (a - i0) (b - j0) else c a b)"
proof (cases "0 \<le> n")
  case True
  show ?thesis
    unfolding addNoise_def
    using rect_loop_eq[OF True True, where F="\<lambda>i j v. v + scale * getNoise g i j"] by simp
next
  case False
  then show ?thesis by (auto simp: addNoise_def for_loop_done fun_eq_iff)
qed

text \<open>The skip loop.\<close>

lemma skip_octaves_eq:
  "skip_octaves m0 n = ((half ^^ nat (m0 - 1)) n, (2::int) ^ nat (m0 - 1))"
proof (cases "1 \<le> m0")
  case True
  have "for_loop 1 m (\<lambda>i (n, r). (half n, r + r)) (n, 1) = ((half ^^ nat (m - 1)) n, (2::int) ^ nat (m - 1))"
    if "1 \<le> m" for m
    using that
  proof (induction m rule: int_ge_induct)
    case base
    then show ?case by (simp add: for_loop_done)
  next
    case (step m)
    have "nat (m + 1 - 1) = Suc (nat (m - 1))" using step.hyps by simp
    then show ?case
      unfolding for_loop_right[OF step.hyps] step.IH by simp
  qed
  then show ?thesis using True by (simp add: skip_octaves_def)
next
  case False
  then show ?thesis by (simp add: skip_octaves_def for_loop_done)
qed

lemma half_nonneg: "0 \<le> n \<Longrightarrow> half n = n div 2"
  by (simp add: half_def)

lemma half_iter_nonneg: "0 \<le> n \<Longrightarrow> (half ^^ k) n = n div 2 ^ k"
proof (induction k)
  case 0
  then show ?case by simp
next
  case (Suc k)
  have "0 \<le> n div 2 ^ k" using Suc.prems by (simp add: pos_imp_zdiv_nonneg_iff)
  moreover have "n div 2 ^ k div 2 = n div 2 ^ Suc k"
    by (simp add: zdiv_zmult2_eq[symmetric] mult.commute)
  ultimately show ?case using Suc
    by (simp add: half_nonneg)
qed

lemma half_iter_neg: "n < 0 \<Longrightarrow> (half ^^ k) n \<le> 0"
  by (induction k) (auto simp: half_def)

lemma half_iter_lt2: "(half ^^ k) n < 2 \<longleftrightarrow> n div 2 ^ k < 2"
proof (cases "0 \<le> n")
  case True
  then show ?thesis by (simp add: half_iter_nonneg)
next
  case False
  then have "n < 0" by simp
  moreover from this have "n div 2 ^ k < 0" by (simp add: pos_imp_zdiv_neg_iff)
  ultimately show ?thesis using half_iter_neg[of n k] by simp
qed

section \<open>Subcell loops\<close>

lemma tile_index:
  fixes n :: int
  assumes "1 \<le> n" and "m * n \<le> b" and "b < m * n + n"
  shows "b div n = m" and "b mod n = b - m * n"
proof -
  have e: "b = n * m + (b - m * n)" by (simp add: algebra_simps)
  have r: "0 \<le> b - m * n" "b - m * n < n" using assms by auto
  show "b div n = m" using int_div_pos_eq[OF e r] .
  show "b mod n = b - m * n" using int_mod_pos_eq[OF e r] .
qed

text \<open>
  One row of tiles, then all rows: the generator after the loops and the values \<open>G\<close> the
  loops put into the cell do not depend on the cell, and every value satisfies what
  \<open>V\<close> says about the noise of its tile.
\<close>

lemma tile_row:
  assumes W: "\<And>g i0 j0 c. W g i0 j0 c =
      (\<lambda>a b. if i0 \<le> a \<and> a < i0 + n \<and> j0 \<le> b \<and> b < j0 + n
             then F (getNoise g (a - i0) (b - j0)) (c a b) else c a b)"
    and J: "\<And>g x y. J g \<Longrightarrow> J (iet g x y n)"
    and V: "\<And>g x y i j. J g \<Longrightarrow> 0 \<le> i \<Longrightarrow> i < n \<Longrightarrow> 0 \<le> j \<Longrightarrow> j < n \<Longrightarrow>
              V x y i j (getNoise (iet g x y n) i j)"
    and n: "1 \<le> n"
  shows "0 \<le> m \<Longrightarrow> J g \<Longrightarrow>
    \<exists>g' G. J g' \<and>
      (\<forall>a b. i0 * n \<le> a \<and> a < i0 * n + n \<and> 0 \<le> b \<and> b < m * n \<longrightarrow>
         V (x + word_of_int i0) (y + word_of_int (b div n)) (a - i0 * n) (b mod n) (G a b)) \<and>
      (\<forall>c. for_loop 0 m (\<lambda>j0 (g, c).
              let g = iet g (x + word_of_int i0) (y + word_of_int j0) n
              in (g, W g (i0 * n) (j0 * n) c)) (g, c) =
           (g', \<lambda>a b. if i0 * n \<le> a \<and> a < i0 * n + n \<and> 0 \<le> b \<and> b < m * n
                       then F (G a b) (c a b) else c a b))"
proof (induction m rule: int_ge_induct)
  case base
  then show ?case
    by (intro exI[of _ g] exI[of _ "\<lambda>_ _. 0"]) (auto simp: for_loop_done fun_eq_iff)
next
  case (step m)
  let ?body = "\<lambda>j0 (g, c). let g = iet g (x + word_of_int i0) (y + word_of_int j0) n
                 in (g, W g (i0 * n) (j0 * n) c)"
  from step obtain g1 G1 where g1: "J g1"
    and G1: "\<And>a b. i0 * n \<le> a \<and> a < i0 * n + n \<and> 0 \<le> b \<and> b < m * n \<Longrightarrow>
         V (x + word_of_int i0) (y + word_of_int (b div n)) (a - i0 * n) (b mod n) (G1 a b)"
    and l1: "\<And>c. for_loop 0 m ?body (g, c) =
           (g1, \<lambda>a b. if i0 * n \<le> a \<and> a < i0 * n + n \<and> 0 \<le> b \<and> b < m * n
                       then F (G1 a b) (c a b) else c a b)"
    by blast
  define g2 where "g2 = iet g1 (x + word_of_int i0) (y + word_of_int m) n"
  define G2 where "G2 = (\<lambda>a b. if m * n \<le> b then getNoise g2 (a - i0 * n) (b - m * n) else G1 a b)"
  have "J g2" unfolding g2_def using g1 by (rule J)
  moreover have "V (x + word_of_int i0) (y + word_of_int (b div n)) (a - i0 * n) (b mod n) (G2 a b)"
    if ab: "i0 * n \<le> a \<and> a < i0 * n + n \<and> 0 \<le> b \<and> b < (m + 1) * n" for a b
  proof (cases "m * n \<le> b")
    case True
    then have b: "b < m * n + n" using ab by (simp add: algebra_simps)
    have "V (x + word_of_int i0) (y + word_of_int m) (a - i0 * n) (b - m * n) 
            (getNoise g2 (a - i0 * n) (b - m * n))"
      unfolding g2_def using g1 ab True b by (intro V) auto
    then show ?thesis using True tile_index[OF n True b] by (simp add: G2_def)
  next
    case False
    then show ?thesis using G1[of a b] ab by (simp add: G2_def)
  qed
  moreover have "for_loop 0 (m + 1) ?body (g, c) =
           (g2, \<lambda>a b. if i0 * n \<le> a \<and> a < i0 * n + n \<and> 0 \<le> b \<and> b < (m + 1) * n
                       then F (G2 a b) (c a b) else c a b)" for c
  proof -
    have mn: "0 \<le> m * n" using step.hyps n by simp
    show ?thesis
      unfolding for_loop_right[OF step.hyps] l1
      using mn by (auto simp: Let_def g2_def[symmetric] W G2_def fun_eq_iff algebra_simps)
  qed
  ultimately show ?case by blast
qed


lemma tile_loops:
  assumes W: "\<And>g i0 j0 c. W g i0 j0 c =
      (\<lambda>a b. if i0 \<le> a \<and> a < i0 + n \<and> j0 \<le> b \<and> b < j0 + n
             then F (getNoise g (a - i0) (b - j0)) (c a b) else c a b)"
    and J: "\<And>g x y. J g \<Longrightarrow> J (iet g x y n)"
    and V: "\<And>g x y i j. J g \<Longrightarrow> 0 \<le> i \<Longrightarrow> i < n \<Longrightarrow> 0 \<le> j \<Longrightarrow> j < n \<Longrightarrow>
              V x y i j (getNoise (iet g x y n) i j)"
    and n: "1 \<le> n" and r: "0 \<le> r"
  shows "0 \<le> m \<Longrightarrow> J g \<Longrightarrow>
    \<exists>g' G. J g' \<and>
      (\<forall>a b. 0 \<le> a \<and> a < m * n \<and> 0 \<le> b \<and> b < r * n \<longrightarrow>
         V (x + word_of_int (a div n)) (y + word_of_int (b div n)) (a mod n) (b mod n) (G a b)) \<and>
      (\<forall>c. for_loop 0 m (\<lambda>i0. for_loop 0 r (\<lambda>j0 (g, c).
              let g = iet g (x + word_of_int i0) (y + word_of_int j0) n
              in (g, W g (i0 * n) (j0 * n) c))) (g, c) =
           (g', \<lambda>a b. if 0 \<le> a \<and> a < m * n \<and> 0 \<le> b \<and> b < r * n
                       then F (G a b) (c a b) else c a b))"
proof (induction m rule: int_ge_induct)
  case base
  then show ?case
    by (intro exI[of _ g] exI[of _ "\<lambda>_ _. 0"]) (auto simp: for_loop_done fun_eq_iff)
next
  case (step m)
  let ?row = "\<lambda>i0. for_loop 0 r (\<lambda>j0 (g, c).
              let g = iet g (x + word_of_int i0) (y + word_of_int j0) n
              in (g, W g (i0 * n) (j0 * n) c))"
  from step obtain g1 G1 where g1: "J g1"
    and G1: "\<And>a b. 0 \<le> a \<and> a < m * n \<and> 0 \<le> b \<and> b < r * n \<Longrightarrow>
         V (x + word_of_int (a div n)) (y + word_of_int (b div n)) (a mod n) (b mod n) (G1 a b)"
    and l1: "\<And>c. for_loop 0 m ?row (g, c) =
           (g1, \<lambda>a b. if 0 \<le> a \<and> a < m * n \<and> 0 \<le> b \<and> b < r * n
                       then F (G1 a b) (c a b) else c a b)"
    by blast
  from tile_row[of W n F J iet V r g1 m x y, OF W J V n r g1]
  obtain g2 G2 where g2: "J g2"
    and G2: "\<And>a b. m * n \<le> a \<and> a < m * n + n \<and> 0 \<le> b \<and> b < r * n \<Longrightarrow>
         V (x + word_of_int m) (y + word_of_int (b div n)) (a - m * n) (b mod n) (G2 a b)"
    and l2: "\<And>c. ?row m (g1, c) =
           (g2, \<lambda>a b. if m * n \<le> a \<and> a < m * n + n \<and> 0 \<le> b \<and> b < r * n
                       then F (G2 a b) (c a b) else c a b)"
    by blast
  define G3 where "G3 = (\<lambda>a b. if m * n \<le> a then G2 a b else G1 a b)"
  have "V (x + word_of_int (a div n)) (y + word_of_int (b div n)) (a mod n) (b mod n) (G3 a b)"
    if ab: "0 \<le> a \<and> a < (m + 1) * n \<and> 0 \<le> b \<and> b < r * n" for a b
  proof (cases "m * n \<le> a")
    case True
    then have a: "a < m * n + n" using ab by (simp add: algebra_simps)
    show ?thesis using G2[of a b] True a ab tile_index[OF n True a] by (simp add: G3_def)
  next
    case False
    then show ?thesis using G1[of a b] ab by (simp add: G3_def)
  qed
  moreover have "for_loop 0 (m + 1) ?row (g, c) =
           (g2, \<lambda>a b. if 0 \<le> a \<and> a < (m + 1) * n \<and> 0 \<le> b \<and> b < r * n
                       then F (G3 a b) (c a b) else c a b)" for c
  proof -
    have mn: "0 \<le> m * n" using step.hyps n by simp
    show ?thesis
      unfolding for_loop_right[OF step.hyps] l1 l2
      using mn n by (auto simp: G3_def fun_eq_iff algebra_simps)
  qed
  ultimately show ?case using g2 by blast
qed

lemma first_octave_form:
  assumes J: "\<And>g x y. J g \<Longrightarrow> J (iet g x y n)"
    and V: "\<And>g x y i j. J g \<Longrightarrow> 0 \<le> i \<Longrightarrow> i < n \<Longrightarrow> 0 \<le> j \<Longrightarrow> j < n \<Longrightarrow>
              V x y i j (getNoise (iet g x y n) i j)"
    and n: "1 \<le> n" and r: "0 \<le> r" and g: "J g"
  shows "\<exists>g' G. J g' \<and>
      (\<forall>a b. 0 \<le> a \<and> a < r * n \<and> 0 \<le> b \<and> b < r * n \<longrightarrow>
         V (x + word_of_int (a div n)) (y + word_of_int (b div n)) (a mod n) (b mod n) (G a b)) \<and>
      (\<forall>c. first_octave iet x y n r (g, c) =
           (g', \<lambda>a b. if 0 \<le> a \<and> a < r * n \<and> 0 \<le> b \<and> b < r * n then G a b else c a b))"
  unfolding first_octave_def
  using tile_loops[where W="\<lambda>g. getNoise_cell g n" and F="\<lambda>v old. v" and n=n and J=J
      and iet=iet and V=V and r=r and m=r and g=g and x=x and y=y, OF getNoise_cell_eq J V n r r g]
  by simp

lemma add_octave_form:
  assumes J: "\<And>g x y. J g \<Longrightarrow> J (iet g x y n)"
    and V: "\<And>g x y i j. J g \<Longrightarrow> 0 \<le> i \<Longrightarrow> i < n \<Longrightarrow> 0 \<le> j \<Longrightarrow> j < n \<Longrightarrow>
              V x y i j (getNoise (iet g x y n) i j)"
    and n: "1 \<le> n" and r: "0 \<le> r" and g: "J g"
  shows "\<exists>g' G. J g' \<and>
      (\<forall>a b. 0 \<le> a \<and> a < r * n \<and> 0 \<le> b \<and> b < r * n \<longrightarrow>
         V (x + word_of_int (a div n)) (y + word_of_int (b div n)) (a mod n) (b mod n) (G a b)) \<and>
      (\<forall>c. add_octave iet x y n r scale (g, c) =
           (g', \<lambda>a b. if 0 \<le> a \<and> a < r * n \<and> 0 \<le> b \<and> b < r * n
                       then c a b + scale * G a b else c a b))"
  unfolding add_octave_def
  using tile_loops[where W="\<lambda>g i0 j0. addNoise g n i0 j0 scale" and F="\<lambda>v old. old + scale * v"
      and n=n and J=J and iet=iet and V=V and r=r and m=r and g=g and x=x and y=y,
      OF addNoise_eq J V n r r g]
  by simp

text \<open>The octaves after the first, for any \<open>initEdgeTables\<close>: what they add to the cell
  does not depend on the cell, and is nothing outside the square of the subcells.\<close>

lemma half_ge: "2 \<le> n \<Longrightarrow> 1 \<le> half n"
  by (simp add: half_def)

lemma half_square: "0 \<le> r \<Longrightarrow> 0 \<le> n \<Longrightarrow> (r + r) * half n \<le> r * n"
proof -
  assume r: "0 \<le> r" and n: "0 \<le> n"
  have "2 * (n div 2) \<le> n" by simp
  then have "r * (2 * (n div 2)) \<le> r * n" using r by (rule mult_left_mono)
  then show ?thesis using n by (simp add: half_def algebra_simps)
qed

lemma other_octaves_step:
  "k < m1 \<Longrightarrow> 2 \<le> n \<Longrightarrow>
   other_octaves iet k m1 n r x y scale (g, c) =
   other_octaves iet (k + 1) m1 (half n) (r + r) (x + x) (y + y) (scale * 0.5)
     (add_octave iet (x + x) (y + y) (half n) (r + r) (scale * 0.5) (initSplineTable g (half n), c))"
  by (subst other_octaves.simps) (simp add: Let_def)

lemma other_octaves_stop:
  "\<not> (k < m1 \<and> 2 \<le> n) \<Longrightarrow> other_octaves iet k m1 n r x y scale gc = (scale, gc)"
  by (subst other_octaves.simps) auto

lemma other_octaves_form:
  "0 \<le> r \<Longrightarrow> 0 \<le> n \<Longrightarrow>
   \<exists>s g' D. (\<forall>a b. \<not> (0 \<le> a \<and> a < r * n \<and> 0 \<le> b \<and> b < r * n) \<longrightarrow> D a b = 0) \<and>
     (\<forall>c. other_octaves iet k m1 n r x y scale (g, c) = (s, g', \<lambda>a b. c a b + D a b))"
proof (induction "nat (m1 - k)" arbitrary: k n r x y scale g)
  case 0
  then have "\<not> (k < m1 \<and> 2 \<le> n)" by simp
  then show ?case
    by (intro exI[of _ scale] exI[of _ g] exI[of _ "\<lambda>_ _. 0"]) (simp add: other_octaves_stop)
next
  case (Suc d)
  show ?case
  proof (cases "k < m1 \<and> 2 \<le> n")
    case True
    define n' where "n' = half n"
    define g1 where "g1 = initSplineTable g n'"
    have n': "1 \<le> n'" using True by (simp add: n'_def half_ge)
    have r': "0 \<le> r + r" using Suc.prems by simp
    have sq: "(r + r) * n' \<le> r * n" unfolding n'_def using Suc.prems by (rule half_square)
    from add_octave_form[where J="\<lambda>_. True" and V="\<lambda>_ _ _ _ _. True" and iet=iet and g=g1
        and x="x + x" and y="y + y" and scale="scale * 0.5", OF _ _ n' r']
    obtain g2 G where a: "\<And>c. add_octave iet (x + x) (y + y) n' (r + r) (scale * 0.5) (g1, c) =
           (g2, \<lambda>a b. if 0 \<le> a \<and> a < (r + r) * n' \<and> 0 \<le> b \<and> b < (r + r) * n'
                       then c a b + scale * 0.5 * G a b else c a b)"
      by auto
    have "d = nat (m1 - (k + 1))" using Suc.hyps(2) by simp
    from Suc.hyps(1)[OF this r', of n' "x + x" "y + y" "scale * 0.5" g2] n'
    obtain s g3 D where D: "\<And>a b. \<not> (0 \<le> a \<and> a < (r + r) * n' \<and> 0 \<le> b \<and> b < (r + r) * n') \<Longrightarrow> D a b = 0"
      and o: "\<And>c. other_octaves iet (k + 1) m1 n' (r + r) (x + x) (y + y) (scale * 0.5) (g2, c) =
                (s, g3, \<lambda>a b. c a b + D a b)"
      by auto
    define D' where "D' = (\<lambda>a b. (if 0 \<le> a \<and> a < (r + r) * n' \<and> 0 \<le> b \<and> b < (r + r) * n'
                       then scale * 0.5 * G a b else 0) + D a b)"
    have "\<forall>a b. \<not> (0 \<le> a \<and> a < r * n \<and> 0 \<le> b \<and> b < r * n) \<longrightarrow> D' a b = 0"
      using sq D by (auto simp: D'_def)
    moreover have "other_octaves iet k m1 n r x y scale (g, c) = (s, g3, \<lambda>a b. c a b + D' a b)" for c
      unfolding other_octaves_step[OF conjunct1[OF True] conjunct2[OF True]]
        n'_def[symmetric] g1_def[symmetric] a o D'_def
      by (auto simp: fun_eq_iff)
    ultimately show ?thesis by blast
  next
    case False
    then show ?thesis
      by (intro exI[of _ scale] exI[of _ g] exI[of _ "\<lambda>_ _. 0"]) (simp add: other_octaves_stop)
  qed
qed

text \<open>A call that is not degenerate, for any \<open>initEdgeTables\<close>: the returned scale, the
  generator and the values written into the square of the first octave do not depend on
  the cell passed in, and the cell outside that square is left as it was.\<close>

lemma generate_form:
  assumes "2 \<le> n div 2 ^ nat (m0 - 1)"
  shows "\<exists>s g' G. \<forall>c. generate iet g x y m0 m1 n c =
     (s, g', \<lambda>a b. if 0 \<le> a \<and> a < 2 ^ nat (m0 - 1) * (n div 2 ^ nat (m0 - 1)) \<and>
                      0 \<le> b \<and> b < 2 ^ nat (m0 - 1) * (n div 2 ^ nat (m0 - 1))
                   then G a b else c a b)"
proof -
  define r0 :: int where "r0 = 2 ^ nat (m0 - 1)"
  define n0 where "n0 = n div r0"
  have n0: "2 \<le> n0" using assms by (simp add: n0_def r0_def)
  have "0 \<le> n"
  proof (rule ccontr)
    assume "\<not> 0 \<le> n"
    then have "n div r0 < 0" by (simp add: pos_imp_zdiv_neg_iff r0_def)
    then show False using n0 by (simp add: n0_def)
  qed
  then have sk: "skip_octaves m0 n = (n0, r0)"
    by (simp add: skip_octaves_eq half_iter_nonneg n0_def r0_def)
  have r0: "0 \<le> r0" by (simp add: r0_def)
  define g1 where "g1 = initSplineTable g n0"
  from first_octave_form[where J="\<lambda>_. True" and V="\<lambda>_ _ _ _ _. True" and iet=iet and g=g1
        and x=x and y=y and n=n0, OF _ _ _ r0] n0
  obtain g2 G where f: "\<And>c. first_octave iet x y n0 r0 (g1, c) =
           (g2, \<lambda>a b. if 0 \<le> a \<and> a < r0 * n0 \<and> 0 \<le> b \<and> b < r0 * n0 then G a b else c a b)"
    by auto
  from other_octaves_form[OF r0, of n0 iet m0 m1 x y 1 g2] n0
  obtain s g3 D where D: "\<And>a b. \<not> (0 \<le> a \<and> a < r0 * n0 \<and> 0 \<le> b \<and> b < r0 * n0) \<Longrightarrow> D a b = 0"
      and o: "\<And>c. other_octaves iet m0 m1 n0 r0 x y 1 (g2, c) = (s, g3, \<lambda>a b. c a b + D a b)"
    by auto
  have "generate iet g x y m0 m1 n c =
     (sqrt 2 / (2 - s), g3, \<lambda>a b. if 0 \<le> a \<and> a < r0 * n0 \<and> 0 \<le> b \<and> b < r0 * n0
                   then G a b + D a b else c a b)" for c
    using n0 D by (auto simp: generate_def sk g1_def[symmetric] f o fun_eq_iff)
  then show ?thesis unfolding n0_def r0_def
    by (intro exI[of _ "sqrt 2 / (2 - s)"] exI[of _ g3] exI[of _ "\<lambda>a b. G a b + D a b"]) simp
qed

section \<open>Degenerate calls and the first octave\<close>

text \<open>
  C3. When halving the granularity \<open>m0 - 1\<close> times (the skip loop) leaves it below 2,
  \<^verbatim>\<open>generate\<close> returns exactly 1 and writes nothing: the cell, and the generator, are as
  they were before the call.
\<close>

theorem generate_degenerate_noop:
  assumes "(half ^^ nat (m0 - 1)) n < 2"
  shows "generate iet g x y m0 m1 n c = (1, g, c)"
  using assms by (simp add: generate_def skip_octaves_eq)

theorem generate_degenerate_noop_witness:
  "(half ^^ nat (3 - 1)) 4 < 2 \<and>
   generate (initEdgeTables mh0) gen0 0 0 3 8 4 (\<lambda>_ _. 7) = (1, gen0, \<lambda>_ _. 7)"
proof -
  have h: "(half ^^ nat (3 - 1)) 4 < 2" by (simp add: half_def eval_nat_numeral)
  show ?thesis
    using h generate_degenerate_noop [OF h, of "initEdgeTables mh0" gen0 0 0 8 "\<lambda>_ _. 7"] by simp
qed

text \<open>
  C6 (the code at granularity 2 with octaves 1 to 2). The loop over the later octaves
  tests \<^verbatim>\<open>n >= 2\<close> before it halves \<open>n\<close>: the call builds the spline table and the edge
  tables for granularity 1 and adds a second octave at granularity 1, with scale \<open>1/2\<close>,
  which is also the scale that enters the returned factor.
\<close>

theorem generate_adds_octave_at_granularity_1:
  "generate iet g x y 1 2 2 c =
     (sqrt 2 / (2 - 1 / 2),
      add_octave iet (x + x) (y + y) 1 2 (1 / 2)
        (initSplineTable (fst (first_octave iet x y 2 1 (initSplineTable g 2, c))) 1,
         snd (first_octave iet x y 2 1 (initSplineTable g 2, c))))"
proof -
  have sk: "skip_octaves 1 2 = (2, 1)"
    by (simp add: skip_octaves_def for_loop_done)
  have h: "half 2 = 1" by (simp add: half_def)
  have "other_octaves iet 1 2 2 1 x y 1 (g', c') =
        (1 / 2, add_octave iet (x + x) (y + y) 1 2 (1 / 2) (initSplineTable g' 1, c'))" for g' c'
    by (simp add: other_octaves_step other_octaves_stop h)
  from this[of "fst (first_octave iet x y 2 1 (initSplineTable g 2, c))"
      "snd (first_octave iet x y 2 1 (initSplineTable g 2, c))"]
  show ?thesis
    by (simp add: generate_def sk Let_def)
qed

text \<open>
  C9. In a call that is not degenerate, every position of the square the first generated
  octave writes (rows and columns below \<open>r0 * n0\<close>, with \<open>r0 = 2 ^ (m0 - 1)\<close> subcells of
  granularity \<open>n0 = n div r0\<close> per side) ends with a value that does not depend on what the
  cell held before the call, and neither does the returned scale: two runs that differ
  only in the cell passed in agree on both.
\<close>

theorem first_octave_overwrites:
  assumes "2 \<le> n div 2 ^ nat (m0 - 1)"
    and "0 \<le> a" and "a < 2 ^ nat (m0 - 1) * (n div 2 ^ nat (m0 - 1))"
    and "0 \<le> b" and "b < 2 ^ nat (m0 - 1) * (n div 2 ^ nat (m0 - 1))"
  shows "fst (generate iet g x y m0 m1 n c1) = fst (generate iet g x y m0 m1 n c2) \<and>
         snd (snd (generate iet g x y m0 m1 n c1)) a b =
         snd (snd (generate iet g x y m0 m1 n c2)) a b"
proof -
  from generate_form[OF assms(1), of iet g x y m1]
  obtain s g' G where "\<And>c. generate iet g x y m0 m1 n c =
     (s, g', \<lambda>a b. if 0 \<le> a \<and> a < 2 ^ nat (m0 - 1) * (n div 2 ^ nat (m0 - 1)) \<and>
                      0 \<le> b \<and> b < 2 ^ nat (m0 - 1) * (n div 2 ^ nat (m0 - 1))
                   then G a b else c a b)"
    by blast
  then show ?thesis using assms(2-5) by simp
qed

theorem first_octave_overwrites_witness:
  "(2::int) \<le> 4 div 2 ^ nat (2 - 1) \<and> (0::int) \<le> 3 \<and> (3::int) < 2 ^ nat (2 - 1) * (4 div 2 ^ nat (2 - 1)) \<and>
   fst (generate (initEdgeTables mh0) gen0 0 0 2 3 4 (\<lambda>_ _. 7)) =
   fst (generate (initEdgeTables mh0) gen0 0 0 2 3 4 (\<lambda>_ _. 0)) \<and>
   snd (snd (generate (initEdgeTables mh0) gen0 0 0 2 3 4 (\<lambda>_ _. 7))) 3 3 =
   snd (snd (generate (initEdgeTables mh0) gen0 0 0 2 3 4 (\<lambda>_ _. 0))) 3 3"
proof -
  have h: "(2::int) \<le> 4 div 2 ^ nat (2 - 1)" "(0::int) \<le> 3"
    "(3::int) < 2 ^ nat (2 - 1) * (4 div 2 ^ nat (2 - 1))"
    by simp_all
  show ?thesis
    using h first_octave_overwrites [OF h(1) h(2) h(3) h(2) h(3), of "initEdgeTables mh0" gen0 0 0 3
        "\<lambda>_ _. 7" "\<lambda>_ _. 0"]
    by simp
qed

section \<open>The edge tables in closed form\<close>

lemma ExpHash_omega_ok:
  assumes "exp_scale_ok st"
  shows "fst (ExpHash_omega x y 0xFFFFFFFF om st) = fst (ExpHash_omega x y 0xFFFFFFFF om None)"
    and "exp_scale_ok (snd (ExpHash_omega x y 0xFFFFFFFF om st))"
  using assms
  by (auto simp: ExpHash_omega_def ExpHash_def exp_scale_ok_def exp_scale0_def Let_def)

lemma initEdgeTables_fields:
  "spline (initEdgeTables mh g x y n) = spline g"
  "seed (initEdgeTables mh g x y n) = seed g"
  by (simp_all add: initEdgeTables_def Let_def)

lemma initEdgeTables_tables:
  assumes "0 \<le> k" and "k < n"
  shows "uax (initEdgeTables mh g x y n) k = real_of_int k * (fst (gradient mh (seed g) x y) / real_of_int n)"
    and "uay (initEdgeTables mh g x y n) k = real_of_int k * (snd (gradient mh (seed g) x y) / real_of_int n)"
    and "vax (initEdgeTables mh g x y n) k = real_of_int (n - k) * - (fst (gradient mh (seed g) x (y + 1)) / real_of_int n)"
    and "vay (initEdgeTables mh g x y n) k = real_of_int k * (snd (gradient mh (seed g) x (y + 1)) / real_of_int n)"
    and "ubx (initEdgeTables mh g x y n) k = real_of_int k * (fst (gradient mh (seed g) (x + 1) y) / real_of_int n)"
    and "uby (initEdgeTables mh g x y n) k = real_of_int (n - k) * - (snd (gradient mh (seed g) (x + 1) y) / real_of_int n)"
    and "vbx (initEdgeTables mh g x y n) k = real_of_int (n - k) * - (fst (gradient mh (seed g) (x + 1) (y + 1)) / real_of_int n)"
    and "vby (initEdgeTables mh g x y n) k = real_of_int (n - k) * - (snd (gradient mh (seed g) (x + 1) (y + 1)) / real_of_int n)"
  using assms
  by (simp_all add: initEdgeTables_def Let_def h_def gradient_def FillUp_eq FillDn_eq)

lemma getNoise_initEdgeTables:
  assumes "0 \<le> i" "i < n" "0 \<le> j" "j < n"
    and "\<forall>k. 0 \<le> k \<and> k < n \<longrightarrow> spline g k = s_curve2 (real_of_int k / real_of_int n)"
  shows "getNoise (initEdgeTables mh g x y n) i j = pnoise (gradient mh (seed g)) n x y i j"
  using assms
  by (simp add: getNoise_def pnoise_def Let_def initEdgeTables_tables initEdgeTables_fields)

lemma initEdgeTables_terrain_fields:
  "spline (initEdgeTables_terrain mh g x y n) = spline g"
  "seed (initEdgeTables_terrain mh g x y n) = seed g"
  "seed1 (initEdgeTables_terrain mh g x y n) = seed1 g"
  "seed2 (initEdgeTables_terrain mh g x y n) = seed2 g"
  "omega (initEdgeTables_terrain mh g x y n) = omega g"
  by (simp_all add: initEdgeTables_terrain_def Let_def split_beta)

lemma initEdgeTables_terrain_static:
  "exp_scale_ok (exp_scale g) \<Longrightarrow> exp_scale_ok (exp_scale (initEdgeTables_terrain mh g x y n))"
  by (simp add: initEdgeTables_terrain_def Let_def split_beta ExpHash_omega_ok)

lemma initEdgeTables_terrain_tables:
  fixes g :: "'a terrain_scheme" and mh :: murmur
  assumes "0 \<le> k" and "k < n" and "exp_scale_ok (exp_scale g)"
  defines "G \<equiv> gradient_terrain mh (seed g) (seed1 g) (seed2 g) (omega g)"
  shows "uax (initEdgeTables_terrain mh g x y n) k = real_of_int k * (fst (G x y) / real_of_int n)"
    and "uay (initEdgeTables_terrain mh g x y n) k = real_of_int k * (snd (G x y) / real_of_int n)"
    and "vax (initEdgeTables_terrain mh g x y n) k = real_of_int (n - k) * - (fst (G x (y + 1)) / real_of_int n)"
    and "vay (initEdgeTables_terrain mh g x y n) k = real_of_int k * (snd (G x (y + 1)) / real_of_int n)"
    and "ubx (initEdgeTables_terrain mh g x y n) k = real_of_int k * (fst (G (x + 1) y) / real_of_int n)"
    and "uby (initEdgeTables_terrain mh g x y n) k = real_of_int (n - k) * - (snd (G (x + 1) y) / real_of_int n)"
    and "vbx (initEdgeTables_terrain mh g x y n) k = real_of_int (n - k) * - (fst (G (x + 1) (y + 1)) / real_of_int n)"
    and "vby (initEdgeTables_terrain mh g x y n) k = real_of_int (n - k) * - (snd (G (x + 1) (y + 1)) / real_of_int n)"
  using assms(1-3) unfolding G_def
  by (simp_all add: initEdgeTables_terrain_def Let_def split_beta h_def gradient_terrain_def
      magnitude_def FillUp_eq FillDn_eq ExpHash_omega_ok)

lemma getNoise_initEdgeTables_terrain:
  fixes g :: "'a terrain_scheme"
  assumes "0 \<le> i" "i < n" "0 \<le> j" "j < n" and "exp_scale_ok (exp_scale g)"
    and "\<forall>k. 0 \<le> k \<and> k < n \<longrightarrow> spline g k = s_curve2 (real_of_int k / real_of_int n)"
  shows "getNoise (initEdgeTables_terrain mh g x y n) i j =
         pnoise (gradient_terrain mh (seed g) (seed1 g) (seed2 g) (omega g)) n x y i j"
  using assms
  by (simp add: getNoise_def pnoise_def Let_def initEdgeTables_terrain_tables
      initEdgeTables_terrain_fields)

section \<open>The loops compute the octaves of the gradient field\<close>

text \<open>
  An \<open>initEdgeTables\<close> that keeps \<open>I\<close> and the spline table and makes \<^verbatim>\<open>getNoise\<close> return
  the noise of the gradient field \<open>G\<close>: the loops of \<^verbatim>\<open>generate\<close> compute the octaves of \<open>G\<close>.
\<close>

lemma first_octave_exact:
  assumes I2: "\<And>g x y n. I g \<Longrightarrow> I (iet g x y n) \<and> spline (iet g x y n) = spline g"
    and I3: "\<And>g x y n i j. I g \<Longrightarrow>
        \<forall>k. 0 \<le> k \<and> k < n \<longrightarrow> spline g k = s_curve2 (real_of_int k / real_of_int n) \<Longrightarrow>
        0 \<le> i \<Longrightarrow> i < n \<Longrightarrow> 0 \<le> j \<Longrightarrow> j < n \<Longrightarrow>
        getNoise (iet g x y n) i j = pnoise G n x y i j"
    and n: "1 \<le> n" and r: "0 \<le> r" and g: "I g"
    and sp: "\<forall>k. 0 \<le> k \<and> k < n \<longrightarrow> spline g k = s_curve2 (real_of_int k / real_of_int n)"
  shows "\<exists>g'. I g' \<and> (\<forall>c. first_octave iet x y n r (g, c) =
           (g', \<lambda>a b. if in_square (r * n) a b then octave_value G x y n a b else c a b))"
proof -
  define J where "J = (\<lambda>g. I g \<and> (\<forall>k. 0 \<le> k \<and> k < n \<longrightarrow> spline g k = s_curve2 (real_of_int k / real_of_int n)))"
  define V where "V = (\<lambda>x y i j v. v = pnoise G n x y i j)"
  have J: "\<And>g x y. J g \<Longrightarrow> J (iet g x y n)" using I2 by (simp add: J_def)
  have V: "\<And>g x y i j. J g \<Longrightarrow> 0 \<le> i \<Longrightarrow> i < n \<Longrightarrow> 0 \<le> j \<Longrightarrow> j < n \<Longrightarrow>
              V x y i j (getNoise (iet g x y n) i j)"
    using I3 by (simp add: J_def V_def)
  have "J g" using g sp by (simp add: J_def)
  from first_octave_form[where J=J and V=V and iet=iet and n=n and r=r and g=g and x=x and y=y, OF J V n r this]
  obtain g' Gv where "J g'"
    and Gv: "\<And>a b. 0 \<le> a \<and> a < r * n \<and> 0 \<le> b \<and> b < r * n \<Longrightarrow> Gv a b = octave_value G x y n a b"
    and f: "\<And>c. first_octave iet x y n r (g, c) =
           (g', \<lambda>a b. if 0 \<le> a \<and> a < r * n \<and> 0 \<le> b \<and> b < r * n then Gv a b else c a b)"
    unfolding V_def octave_value_def by blast
  have "first_octave iet x y n r (g, c) =
           (g', \<lambda>a b. if in_square (r * n) a b then octave_value G x y n a b else c a b)" for c
    unfolding f using Gv by (auto simp: in_square_def fun_eq_iff)
  then show ?thesis using \<open>J g'\<close> by (auto simp: J_def)
qed

lemma add_octave_exact:
  assumes I2: "\<And>g x y n. I g \<Longrightarrow> I (iet g x y n) \<and> spline (iet g x y n) = spline g"
    and I3: "\<And>g x y n i j. I g \<Longrightarrow>
        \<forall>k. 0 \<le> k \<and> k < n \<longrightarrow> spline g k = s_curve2 (real_of_int k / real_of_int n) \<Longrightarrow>
        0 \<le> i \<Longrightarrow> i < n \<Longrightarrow> 0 \<le> j \<Longrightarrow> j < n \<Longrightarrow>
        getNoise (iet g x y n) i j = pnoise G n x y i j"
    and n: "1 \<le> n" and r: "0 \<le> r" and g: "I g"
    and sp: "\<forall>k. 0 \<le> k \<and> k < n \<longrightarrow> spline g k = s_curve2 (real_of_int k / real_of_int n)"
  shows "\<exists>g'. I g' \<and> (\<forall>c. add_octave iet x y n r scale (g, c) =
           (g', \<lambda>a b. if in_square (r * n) a b then c a b + scale * octave_value G x y n a b
                       else c a b))"
proof -
  define J where "J = (\<lambda>g. I g \<and> (\<forall>k. 0 \<le> k \<and> k < n \<longrightarrow> spline g k = s_curve2 (real_of_int k / real_of_int n)))"
  define V where "V = (\<lambda>x y i j v. v = pnoise G n x y i j)"
  have J: "\<And>g x y. J g \<Longrightarrow> J (iet g x y n)" using I2 by (simp add: J_def)
  have V: "\<And>g x y i j. J g \<Longrightarrow> 0 \<le> i \<Longrightarrow> i < n \<Longrightarrow> 0 \<le> j \<Longrightarrow> j < n \<Longrightarrow>
              V x y i j (getNoise (iet g x y n) i j)"
    using I3 by (simp add: J_def V_def)
  have "J g" using g sp by (simp add: J_def)
  from add_octave_form[where J=J and V=V and iet=iet and n=n and r=r and g=g and x=x and y=y and scale=scale, OF J V n r this]
  obtain g' Gv where "J g'"
    and Gv: "\<And>a b. 0 \<le> a \<and> a < r * n \<and> 0 \<le> b \<and> b < r * n \<Longrightarrow> Gv a b = octave_value G x y n a b"
    and f: "\<And>c. add_octave iet x y n r scale (g, c) =
           (g', \<lambda>a b. if 0 \<le> a \<and> a < r * n \<and> 0 \<le> b \<and> b < r * n
                       then c a b + scale * Gv a b else c a b)"
    unfolding V_def octave_value_def by blast
  have "add_octave iet x y n r scale (g, c) =
           (g', \<lambda>a b. if in_square (r * n) a b then c a b + scale * octave_value G x y n a b
                       else c a b)" for c
    unfolding f using Gv by (auto simp: in_square_def fun_eq_iff)
  then show ?thesis using \<open>J g'\<close> by (auto simp: J_def)
qed


lemma noise_octaves_step:
  "k < m1 \<Longrightarrow> 2 \<le> n \<Longrightarrow>
   noise_octaves G k m1 n r x y scale c =
   noise_octaves G (k + 1) m1 (half n) (r + r) (x + x) (y + y) (scale * 0.5)
     (\<lambda>a b. if in_square ((r + r) * half n) a b
            then c a b + scale * 0.5 * octave_value G (x + x) (y + y) (half n) a b else c a b)"
  by (subst noise_octaves.simps, simp only: Let_def) simp

lemma noise_octaves_stop:
  "\<not> (k < m1 \<and> 2 \<le> n) \<Longrightarrow> noise_octaves G k m1 n r x y scale c = (scale, c)"
  by (subst noise_octaves.simps) auto

lemma other_octaves_exact:
  assumes I1: "\<And>g n. I g \<Longrightarrow> I (initSplineTable g n)"
    and I2: "\<And>g x y n. I g \<Longrightarrow> I (iet g x y n) \<and> spline (iet g x y n) = spline g"
    and I3: "\<And>g x y n i j. I g \<Longrightarrow>
        \<forall>k. 0 \<le> k \<and> k < n \<longrightarrow> spline g k = s_curve2 (real_of_int k / real_of_int n) \<Longrightarrow>
        0 \<le> i \<Longrightarrow> i < n \<Longrightarrow> 0 \<le> j \<Longrightarrow> j < n \<Longrightarrow>
        getNoise (iet g x y n) i j = pnoise G n x y i j"
  shows "0 \<le> r \<Longrightarrow> I g \<Longrightarrow>
    \<exists>g'. I g' \<and> (\<forall>c. other_octaves iet k m1 n r x y scale (g, c) =
       (fst (noise_octaves G k m1 n r x y scale c), g', snd (noise_octaves G k m1 n r x y scale c)))"
proof (induction "nat (m1 - k)" arbitrary: k n r x y scale g)
  case 0
  then have "\<not> (k < m1 \<and> 2 \<le> n)" by simp
  then show ?case using 0
    by (intro exI[of _ g]) (simp add: other_octaves_stop noise_octaves_stop)
next
  case (Suc d)
  show ?case
  proof (cases "k < m1 \<and> 2 \<le> n")
    case True
    define n' where "n' = half n"
    define g1 where "g1 = initSplineTable g n'"
    have n': "1 \<le> n'" using True by (simp add: n'_def half_ge)
    have r': "0 \<le> r + r" using Suc.prems by simp
    have g1: "I g1" unfolding g1_def using Suc.prems(2) by (rule I1)
    have sp: "\<forall>k. 0 \<le> k \<and> k < n' \<longrightarrow> spline g1 k = s_curve2 (real_of_int k / real_of_int n')"
      by (simp add: g1_def initSplineTable_eq)
    from add_octave_exact[where I=I and iet=iet and G=G and n=n' and r="r + r" and g=g1
        and x="x + x" and y="y + y" and scale="scale * 0.5", OF I2 I3 n' r' g1 sp]
    obtain g2 where g2: "I g2"
      and a: "\<And>c. add_octave iet (x + x) (y + y) n' (r + r) (scale * 0.5) (g1, c) =
           (g2, \<lambda>a b. if in_square ((r + r) * n') a b
                       then c a b + scale * 0.5 * octave_value G (x + x) (y + y) n' a b else c a b)"
      by blast
    have "d = nat (m1 - (k + 1))" using Suc.hyps(2) by simp
    from Suc.hyps(1)[OF this r' g2, of n' "x + x" "y + y" "scale * 0.5"]
    obtain g3 where g3: "I g3"
      and o: "\<And>c. other_octaves iet (k + 1) m1 n' (r + r) (x + x) (y + y) (scale * 0.5) (g2, c) =
         (fst (noise_octaves G (k + 1) m1 n' (r + r) (x + x) (y + y) (scale * 0.5) c), g3,
          snd (noise_octaves G (k + 1) m1 n' (r + r) (x + x) (y + y) (scale * 0.5) c))"
      by blast
    have "other_octaves iet k m1 n r x y scale (g, c) =
       (fst (noise_octaves G k m1 n r x y scale c), g3, snd (noise_octaves G k m1 n r x y scale c))" for c
      unfolding other_octaves_step[OF conjunct1[OF True] conjunct2[OF True]]
        noise_octaves_step[OF conjunct1[OF True] conjunct2[OF True]]
        n'_def[symmetric] g1_def[symmetric] a o ..
    then show ?thesis using g3 by blast
  next
    case False
    then show ?thesis using Suc.prems
      by (intro exI[of _ g]) (simp add: other_octaves_stop noise_octaves_stop)
  qed
qed

lemma generate_exact:
  assumes I1: "\<And>g n. I g \<Longrightarrow> I (initSplineTable g n)"
    and I2: "\<And>g x y n. I g \<Longrightarrow> I (iet g x y n) \<and> spline (iet g x y n) = spline g"
    and I3: "\<And>g x y n i j. I g \<Longrightarrow>
        \<forall>k. 0 \<le> k \<and> k < n \<longrightarrow> spline g k = s_curve2 (real_of_int k / real_of_int n) \<Longrightarrow>
        0 \<le> i \<Longrightarrow> i < n \<Longrightarrow> 0 \<le> j \<Longrightarrow> j < n \<Longrightarrow>
        getNoise (iet g x y n) i j = pnoise G n x y i j"
    and g: "I g"
  shows "fst (generate iet g x y m0 m1 n c) = fst (noise_generate G x y m0 m1 n c)"
    and "snd (snd (generate iet g x y m0 m1 n c)) = snd (noise_generate G x y m0 m1 n c)"
    and "I (fst (snd (generate iet g x y m0 m1 n c)))"
proof -
  define n0 where "n0 = (half ^^ nat (m0 - 1)) n"
  define r0 :: int where "r0 = 2 ^ nat (m0 - 1)"
  have sk: "skip_octaves m0 n = (n0, r0)" by (simp add: skip_octaves_eq n0_def r0_def)
  have r0: "0 \<le> r0" by (simp add: r0_def)
  have "fst (generate iet g x y m0 m1 n c) = fst (noise_generate G x y m0 m1 n c) \<and>
        snd (snd (generate iet g x y m0 m1 n c)) = snd (noise_generate G x y m0 m1 n c) \<and>
        I (fst (snd (generate iet g x y m0 m1 n c)))"
  proof (cases "n0 < 2")
    case True
    then show ?thesis using g by (simp add: generate_def noise_generate_def sk)
  next
    case False
    define g1 where "g1 = initSplineTable g n0"
    have n0: "1 \<le> n0" using False by simp
    have g1: "I g1" unfolding g1_def using g by (rule I1)
    have sp: "\<forall>k. 0 \<le> k \<and> k < n0 \<longrightarrow> spline g1 k = s_curve2 (real_of_int k / real_of_int n0)"
      by (simp add: g1_def initSplineTable_eq)
    from first_octave_exact[where I=I and iet=iet and G=G and n=n0 and r=r0 and g=g1
        and x=x and y=y, OF I2 I3 n0 r0 g1 sp]
    obtain g2 where g2: "I g2"
      and f: "\<And>c. first_octave iet x y n0 r0 (g1, c) =
           (g2, \<lambda>a b. if in_square (r0 * n0) a b then octave_value G x y n0 a b else c a b)"
      by blast
    from other_octaves_exact[where I=I and iet=iet and G=G, OF I1 I2 I3 r0 g2, of m0 m1 n0 x y 1]
    obtain g3 where g3: "I g3"
      and o: "\<And>c. other_octaves iet m0 m1 n0 r0 x y 1 (g2, c) =
         (fst (noise_octaves G m0 m1 n0 r0 x y 1 c), g3, snd (noise_octaves G m0 m1 n0 r0 x y 1 c))"
      by blast
    show ?thesis using False g3
      by (simp add: generate_def noise_generate_def sk g1_def[symmetric] f o split_beta Let_def cong: if_cong)
  qed
  then show "fst (generate iet g x y m0 m1 n c) = fst (noise_generate G x y m0 m1 n c)"
    and "snd (snd (generate iet g x y m0 m1 n c)) = snd (noise_generate G x y m0 m1 n c)"
    and "I (fst (snd (generate iet g x y m0 m1 n c)))"
    by simp_all
qed

text \<open>The two generators of the sources.\<close>

lemma generate_classic:
  "fst (generate (initEdgeTables mh) g x y m0 m1 n c) =
     fst (noise_generate (gradient mh (seed g)) x y m0 m1 n c)"
  "snd (snd (generate (initEdgeTables mh) g x y m0 m1 n c)) =
     snd (noise_generate (gradient mh (seed g)) x y m0 m1 n c)"
proof -
  define sd where "sd = seed g"
  define I where "I = (\<lambda>g :: 'a noise2d_scheme. seed g = sd)"
  have I1: "\<And>g n. I g \<Longrightarrow> I (initSplineTable g n)" by (simp add: I_def initSplineTable_def)
  have I2: "\<And>g x y n. I g \<Longrightarrow> I (initEdgeTables mh g x y n) \<and> spline (initEdgeTables mh g x y n) = spline g"
    by (simp add: I_def initEdgeTables_fields)
  have I3: "\<And>g x y n i j. I g \<Longrightarrow>
        \<forall>k. 0 \<le> k \<and> k < n \<longrightarrow> spline g k = s_curve2 (real_of_int k / real_of_int n) \<Longrightarrow>
        0 \<le> i \<Longrightarrow> i < n \<Longrightarrow> 0 \<le> j \<Longrightarrow> j < n \<Longrightarrow>
        getNoise (initEdgeTables mh g x y n) i j = pnoise (gradient mh sd) n x y i j"
  proof -
    fix g :: "'a noise2d_scheme" and x y n i j
    assume g: "I g"
      and sp: "\<forall>k. 0 \<le> k \<and> k < n \<longrightarrow> spline g k = s_curve2 (real_of_int k / real_of_int n)"
      and ij: "0 \<le> i" "i < n" "0 \<le> j" "j < n"
    have "seed g = sd" using g by (simp add: I_def)
    then show "getNoise (initEdgeTables mh g x y n) i j = pnoise (gradient mh sd) n x y i j"
      using getNoise_initEdgeTables[OF ij sp, of mh x y] by simp
  qed
  have g: "I g" by (simp add: I_def sd_def)
  note ex = generate_exact[where I=I and iet="initEdgeTables mh" and G="gradient mh sd", OF I1 I2 I3 g]
  show "fst (generate (initEdgeTables mh) g x y m0 m1 n c) =
     fst (noise_generate (gradient mh (seed g)) x y m0 m1 n c)"
    unfolding sd_def[symmetric] by (rule ex(1))
  show "snd (snd (generate (initEdgeTables mh) g x y m0 m1 n c)) =
     snd (noise_generate (gradient mh (seed g)) x y m0 m1 n c)"
    unfolding sd_def[symmetric] by (rule ex(2))
qed

lemma generate_terrain:
  fixes g :: "'a terrain_scheme"
  assumes "exp_scale_ok (exp_scale g)"
  shows "fst (generate (initEdgeTables_terrain mh) g x y m0 m1 n c) =
     fst (noise_generate (gradient_terrain mh (seed g) (seed1 g) (seed2 g) (omega g)) x y m0 m1 n c)"
  and "snd (snd (generate (initEdgeTables_terrain mh) g x y m0 m1 n c)) =
     snd (noise_generate (gradient_terrain mh (seed g) (seed1 g) (seed2 g) (omega g)) x y m0 m1 n c)"
  and "exp_scale_ok (exp_scale (fst (snd (generate (initEdgeTables_terrain mh) g x y m0 m1 n c))))"
proof -
  define I where "I = (terrain_inv (seed g) (seed1 g) (seed2 g) (omega g) :: 'a terrain_scheme \<Rightarrow> bool)"
  define G where "G = gradient_terrain mh (seed g) (seed1 g) (seed2 g) (omega g)"
  have I1: "\<And>g n. I g \<Longrightarrow> I (initSplineTable g n)"
    by (simp add: I_def terrain_inv_def initSplineTable_def)
  have I2: "\<And>g x y n. I g \<Longrightarrow> I (initEdgeTables_terrain mh g x y n) \<and>
               spline (initEdgeTables_terrain mh g x y n) = spline g"
    by (simp add: I_def terrain_inv_def initEdgeTables_terrain_fields initEdgeTables_terrain_static)
  have I3: "\<And>g x y n i j. I g \<Longrightarrow>
        \<forall>k. 0 \<le> k \<and> k < n \<longrightarrow> spline g k = s_curve2 (real_of_int k / real_of_int n) \<Longrightarrow>
        0 \<le> i \<Longrightarrow> i < n \<Longrightarrow> 0 \<le> j \<Longrightarrow> j < n \<Longrightarrow>
        getNoise (initEdgeTables_terrain mh g x y n) i j = pnoise G n x y i j"
  proof -
    fix g' :: "'a terrain_scheme" and x y n i j
    assume g: "I g'"
      and sp: "\<forall>k. 0 \<le> k \<and> k < n \<longrightarrow> spline g' k = s_curve2 (real_of_int k / real_of_int n)"
      and ij: "0 \<le> i" "i < n" "0 \<le> j" "j < n"
    have e: "exp_scale_ok (exp_scale g')" using g by (simp add: I_def terrain_inv_def)
    have "gradient_terrain mh (seed g') (seed1 g') (seed2 g') (omega g') = G"
      using g by (simp add: I_def terrain_inv_def G_def)
    then show "getNoise (initEdgeTables_terrain mh g' x y n) i j = pnoise G n x y i j"
      using getNoise_initEdgeTables_terrain[OF ij e sp, of mh x y] by simp
  qed
  have g: "I g" using assms by (simp add: I_def terrain_inv_def)
  note ex = generate_exact[where I=I and iet="initEdgeTables_terrain mh" and G=G, OF I1 I2 I3 g]
  show "fst (generate (initEdgeTables_terrain mh) g x y m0 m1 n c) =
     fst (noise_generate (gradient_terrain mh (seed g) (seed1 g) (seed2 g) (omega g)) x y m0 m1 n c)"
    unfolding G_def[symmetric] by (rule ex(1))
  show "snd (snd (generate (initEdgeTables_terrain mh) g x y m0 m1 n c)) =
     snd (noise_generate (gradient_terrain mh (seed g) (seed1 g) (seed2 g) (omega g)) x y m0 m1 n c)"
    unfolding G_def[symmetric] by (rule ex(2))
  show "exp_scale_ok (exp_scale (fst (snd (generate (initEdgeTables_terrain mh) g x y m0 m1 n c))))"
    using ex(3)[of x y m0 m1 n c] unfolding I_def terrain_inv_def by blast
qed

lemma generate_seed:
  "seed (fst (snd (generate (initEdgeTables mh) g x y m0 m1 n c))) = seed g"
proof -
  define sd where "sd = seed g"
  define I where "I = (\<lambda>g :: 'a noise2d_scheme. seed g = sd)"
  have I1: "\<And>g n. I g \<Longrightarrow> I (initSplineTable g n)" by (simp add: I_def initSplineTable_def)
  have I2: "\<And>g x y n. I g \<Longrightarrow> I (initEdgeTables mh g x y n) \<and> spline (initEdgeTables mh g x y n) = spline g"
    by (simp add: I_def initEdgeTables_fields)
  have I3: "\<And>g x y n i j. I g \<Longrightarrow>
        \<forall>k. 0 \<le> k \<and> k < n \<longrightarrow> spline g k = s_curve2 (real_of_int k / real_of_int n) \<Longrightarrow>
        0 \<le> i \<Longrightarrow> i < n \<Longrightarrow> 0 \<le> j \<Longrightarrow> j < n \<Longrightarrow>
        getNoise (initEdgeTables mh g x y n) i j = pnoise (gradient mh sd) n x y i j"
  proof -
    fix g :: "'a noise2d_scheme" and x y n i j
    assume g: "I g"
      and sp: "\<forall>k. 0 \<le> k \<and> k < n \<longrightarrow> spline g k = s_curve2 (real_of_int k / real_of_int n)"
      and ij: "0 \<le> i" "i < n" "0 \<le> j" "j < n"
    have "seed g = sd" using g by (simp add: I_def)
    then show "getNoise (initEdgeTables mh g x y n) i j = pnoise (gradient mh sd) n x y i j"
      using getNoise_initEdgeTables[OF ij sp, of mh x y] by simp
  qed
  have g: "I g" by (simp add: I_def sd_def)
  from generate_exact(3)[where I=I and iet="initEdgeTables mh" and G="gradient mh sd", OF I1 I2 I3 g,
      of x y m0 m1 n c]
  show ?thesis unfolding I_def sd_def .
qed

lemma generate_terrain_inv:
  fixes g :: "'a terrain_scheme"
  assumes "terrain_inv sd sd1 sd2 om g"
  shows "terrain_inv sd sd1 sd2 om (fst (snd (generate (initEdgeTables_terrain mh) g x y m0 m1 n c)))"
proof -
  define I where "I = (terrain_inv sd sd1 sd2 om :: 'a terrain_scheme \<Rightarrow> bool)"
  define G where "G = gradient_terrain mh sd sd1 sd2 om"
  have I1: "\<And>g n. I g \<Longrightarrow> I (initSplineTable g n)"
    by (simp add: I_def terrain_inv_def initSplineTable_def)
  have I2: "\<And>g x y n. I g \<Longrightarrow> I (initEdgeTables_terrain mh g x y n) \<and>
               spline (initEdgeTables_terrain mh g x y n) = spline g"
    by (simp add: I_def terrain_inv_def initEdgeTables_terrain_fields initEdgeTables_terrain_static)
  have I3: "\<And>g x y n i j. I g \<Longrightarrow>
        \<forall>k. 0 \<le> k \<and> k < n \<longrightarrow> spline g k = s_curve2 (real_of_int k / real_of_int n) \<Longrightarrow>
        0 \<le> i \<Longrightarrow> i < n \<Longrightarrow> 0 \<le> j \<Longrightarrow> j < n \<Longrightarrow>
        getNoise (initEdgeTables_terrain mh g x y n) i j = pnoise G n x y i j"
  proof -
    fix g' :: "'a terrain_scheme" and x y n i j
    assume g: "I g'"
      and sp: "\<forall>k. 0 \<le> k \<and> k < n \<longrightarrow> spline g' k = s_curve2 (real_of_int k / real_of_int n)"
      and ij: "0 \<le> i" "i < n" "0 \<le> j" "j < n"
    have e: "exp_scale_ok (exp_scale g')" using g by (simp add: I_def terrain_inv_def)
    have "gradient_terrain mh (seed g') (seed1 g') (seed2 g') (omega g') = G"
      using g by (simp add: I_def terrain_inv_def G_def)
    then show "getNoise (initEdgeTables_terrain mh g' x y n) i j = pnoise G n x y i j"
      using getNoise_initEdgeTables_terrain[OF ij e sp, of mh x y] by simp
  qed
  have g: "I g" using assms by (simp add: I_def)
  from generate_exact(3)[where I=I and iet="initEdgeTables_terrain mh" and G=G, OF I1 I2 I3 g,
      of x y m0 m1 n c]
  show ?thesis unfolding I_def .
qed

section \<open>Corner gradients and determinism\<close>

text \<open>
  C4. The gradient of the lattice point \<open>(x, y)\<close> is \<open>gradient\<close> (in the terrain
  generator \<open>gradient_terrain\<close>, direction times magnitude), a function of the seeds,
  \<open>omega\<close> and the point only. Each of the four tiles that have the point as a corner
  builds its two tables for that corner from this one gradient, as ramps over
  \<open>0 \<le> k < n\<close>: the tile at \<open>(x, y)\<close> in \<open>uax\<close>, \<open>uay\<close>, the tile at \<open>(x, y - 1)\<close> in
  \<open>vax\<close>, \<open>vay\<close>, the tile at \<open>(x - 1, y)\<close> in \<open>ubx\<close>, \<open>uby\<close>, and the tile at
  \<open>(x - 1, y - 1)\<close> in \<open>vbx\<close>, \<open>vby\<close>, whatever the generators held in their tables
  before, provided they have the same seeds (and, for the terrain generator, the same
  \<open>omega\<close> and a static of \<^verbatim>\<open>ExpHash\<close> that is fresh or was set by the generator).
\<close>

theorem corner_gradient_shared:
  fixes g00 g01 g10 g11 :: "'a noise2d_scheme" and t00 t01 t10 t11 :: "'b terrain_scheme"
  assumes "0 \<le> k" and "k < n"
    and "seed g00 = sd" and "seed g01 = sd" and "seed g10 = sd" and "seed g11 = sd"
    and "terrain_inv sd sd1 sd2 om t00" and "terrain_inv sd sd1 sd2 om t01"
    and "terrain_inv sd sd1 sd2 om t10" and "terrain_inv sd sd1 sd2 om t11"
  shows "(let gx = fst (gradient mh sd x y); gy = snd (gradient mh sd x y) in
          uax (initEdgeTables mh g00 x y n) k = real_of_int k * (gx / real_of_int n) \<and>
          uay (initEdgeTables mh g00 x y n) k = real_of_int k * (gy / real_of_int n) \<and>
          vax (initEdgeTables mh g01 x (y - 1) n) k = real_of_int (n - k) * - (gx / real_of_int n) \<and>
          vay (initEdgeTables mh g01 x (y - 1) n) k = real_of_int k * (gy / real_of_int n) \<and>
          ubx (initEdgeTables mh g10 (x - 1) y n) k = real_of_int k * (gx / real_of_int n) \<and>
          uby (initEdgeTables mh g10 (x - 1) y n) k = real_of_int (n - k) * - (gy / real_of_int n) \<and>
          vbx (initEdgeTables mh g11 (x - 1) (y - 1) n) k = real_of_int (n - k) * - (gx / real_of_int n) \<and>
          vby (initEdgeTables mh g11 (x - 1) (y - 1) n) k = real_of_int (n - k) * - (gy / real_of_int n)) \<and>
         (let gx = fst (gradient_terrain mh sd sd1 sd2 om x y);
              gy = snd (gradient_terrain mh sd sd1 sd2 om x y) in
          uax (initEdgeTables_terrain mh t00 x y n) k = real_of_int k * (gx / real_of_int n) \<and>
          uay (initEdgeTables_terrain mh t00 x y n) k = real_of_int k * (gy / real_of_int n) \<and>
          vax (initEdgeTables_terrain mh t01 x (y - 1) n) k = real_of_int (n - k) * - (gx / real_of_int n) \<and>
          vay (initEdgeTables_terrain mh t01 x (y - 1) n) k = real_of_int k * (gy / real_of_int n) \<and>
          ubx (initEdgeTables_terrain mh t10 (x - 1) y n) k = real_of_int k * (gx / real_of_int n) \<and>
          uby (initEdgeTables_terrain mh t10 (x - 1) y n) k = real_of_int (n - k) * - (gy / real_of_int n) \<and>
          vbx (initEdgeTables_terrain mh t11 (x - 1) (y - 1) n) k = real_of_int (n - k) * - (gx / real_of_int n) \<and>
          vby (initEdgeTables_terrain mh t11 (x - 1) (y - 1) n) k = real_of_int (n - k) * - (gy / real_of_int n))"
proof -
  note c = initEdgeTables_tables[OF assms(1,2)]
  have e: "exp_scale_ok (exp_scale t00)" "exp_scale_ok (exp_scale t01)"
    "exp_scale_ok (exp_scale t10)" "exp_scale_ok (exp_scale t11)"
    using assms(7-10) by (simp_all add: terrain_inv_def)
  have p: "seed t00 = sd" "seed1 t00 = sd1" "seed2 t00 = sd2" "omega t00 = om"
    "seed t01 = sd" "seed1 t01 = sd1" "seed2 t01 = sd2" "omega t01 = om"
    "seed t10 = sd" "seed1 t10 = sd1" "seed2 t10 = sd2" "omega t10 = om"
    "seed t11 = sd" "seed1 t11 = sd1" "seed2 t11 = sd2" "omega t11 = om"
    using assms(7-10) by (simp_all add: terrain_inv_def)
  note t0 = initEdgeTables_terrain_tables[OF assms(1,2) e(1), of mh, unfolded p]
  note t1 = initEdgeTables_terrain_tables[OF assms(1,2) e(2), of mh, unfolded p]
  note t2 = initEdgeTables_terrain_tables[OF assms(1,2) e(3), of mh, unfolded p]
  note t3 = initEdgeTables_terrain_tables[OF assms(1,2) e(4), of mh, unfolded p]
  show ?thesis
    unfolding Let_def
    using c(1,2)[of mh g00 x y] c(3,4)[of mh g01 x "y - 1"] c(5,6)[of mh g10 "x - 1" y]
      c(7,8)[of mh g11 "x - 1" "y - 1"]
      t0(1,2)[of x y] t1(3,4)[of x "y - 1"] t2(5,6)[of "x - 1" y] t3(7,8)[of "x - 1" "y - 1"]
    by (simp add: assms(3-6))
qed

theorem corner_gradient_shared_witness:
  "(0::int) \<le> 1 \<and> (1::int) < 4 \<and> seed gen0 = 9999 \<and>
   terrain_inv 9999 (9999 + 9999) (9999 + 314159) (3 / 10) terrain0 \<and>
   ubx (initEdgeTables mh0 gen0 (1 - 1) 0 4) 1 = uax (initEdgeTables mh0 gen0 1 0 4) 1 \<and>
   ubx (initEdgeTables_terrain mh0 terrain0 (1 - 1) 0 4) 1 =
   uax (initEdgeTables_terrain mh0 terrain0 1 0 4) 1"
proof -
  have h: "(0::int) \<le> 1" "(1::int) < 4" "seed gen0 = 9999"
    "terrain_inv 9999 (9999 + 9999) (9999 + 314159) (3 / 10) terrain0"
    by (simp_all add: gen0_def terrain0_def terrain_inv_def exp_scale_ok_def)
  show ?thesis
    using h corner_gradient_shared [OF h(1) h(2) h(3) h(3) h(3) h(3) h(4) h(4) h(4) h(4), of mh0 1 0]
    by (simp add: Let_def)
qed

text \<open>
  C7. Two runs of \<^verbatim>\<open>generate\<close> with the same origin, octave range, granularity and cell,
  on generators with the same seed (for the terrain generator: the same seeds and
  \<open>omega\<close>, the static of \<^verbatim>\<open>ExpHash\<close> fresh or set by the generator), return the same scale
  and the same cell, whatever the tables of the two generators held before; so does a
  second run on the generator the first run leaves behind.
\<close>

theorem generate_deterministic:
  fixes g1 g2 :: "'a noise2d_scheme" and t1 t2 :: "'b terrain_scheme"
  assumes "seed g1 = seed g2"
    and "terrain_inv sd sd1 sd2 om t1" and "terrain_inv sd sd1 sd2 om t2"
  shows "fst (generate (initEdgeTables mh) g1 x y m0 m1 n c) =
         fst (generate (initEdgeTables mh) g2 x y m0 m1 n c) \<and>
         snd (snd (generate (initEdgeTables mh) g1 x y m0 m1 n c)) =
         snd (snd (generate (initEdgeTables mh) g2 x y m0 m1 n c)) \<and>
         fst (generate (initEdgeTables_terrain mh) t1 x y m0 m1 n c) =
         fst (generate (initEdgeTables_terrain mh) t2 x y m0 m1 n c) \<and>
         snd (snd (generate (initEdgeTables_terrain mh) t1 x y m0 m1 n c)) =
         snd (snd (generate (initEdgeTables_terrain mh) t2 x y m0 m1 n c)) \<and>
         terrain_inv sd sd1 sd2 om (fst (snd (generate (initEdgeTables_terrain mh) t1 x y m0 m1 n c))) \<and>
         seed (fst (snd (generate (initEdgeTables mh) g1 x y m0 m1 n c))) = seed g1"
proof -
  have e: "exp_scale_ok (exp_scale t1)" "exp_scale_ok (exp_scale t2)"
    using assms(2,3) by (simp_all add: terrain_inv_def)
  have p: "seed t1 = sd" "seed1 t1 = sd1" "seed2 t1 = sd2" "omega t1 = om"
    "seed t2 = sd" "seed1 t2 = sd1" "seed2 t2 = sd2" "omega t2 = om"
    using assms(2,3) by (simp_all add: terrain_inv_def)
  have "terrain_inv sd sd1 sd2 om (fst (snd (generate (initEdgeTables_terrain mh) t1 x y m0 m1 n c)))"
    using generate_terrain_inv[OF assms(2)] .
  moreover have "seed (fst (snd (generate (initEdgeTables mh) g1 x y m0 m1 n c))) = seed g1"
    by (rule generate_seed)
  ultimately show ?thesis
    by (simp add: generate_classic generate_terrain(1,2)[OF e(1)] generate_terrain(1,2)[OF e(2)]
        assms(1) p)
qed

theorem generate_deterministic_witness:
  "seed gen0 = seed (gen0\<lparr>uax := (\<lambda>_. 5)\<rparr>) \<and>
   terrain_inv 9999 (9999 + 9999) (9999 + 314159) (3 / 10) terrain0 \<and>
   terrain_inv 9999 (9999 + 9999) (9999 + 314159) (3 / 10) (terrain0\<lparr>spline := (\<lambda>_. 5)\<rparr>) \<and>
   snd (snd (generate (initEdgeTables mh0) gen0 1 2 1 3 8 (\<lambda>_ _. 7))) =
   snd (snd (generate (initEdgeTables mh0) (gen0\<lparr>uax := (\<lambda>_. 5)\<rparr>) 1 2 1 3 8 (\<lambda>_ _. 7))) \<and>
   snd (snd (generate (initEdgeTables_terrain mh0) terrain0 1 2 1 3 8 (\<lambda>_ _. 7))) =
   snd (snd (generate (initEdgeTables_terrain mh0) (terrain0\<lparr>spline := (\<lambda>_. 5)\<rparr>) 1 2 1 3 8 (\<lambda>_ _. 7)))"
proof -
  have h: "seed gen0 = seed (gen0\<lparr>uax := (\<lambda>_. 5)\<rparr>)"
    "terrain_inv 9999 (9999 + 9999) (9999 + 314159) (3 / 10) terrain0"
    "terrain_inv 9999 (9999 + 9999) (9999 + 314159) (3 / 10) (terrain0\<lparr>spline := (\<lambda>_. 5)\<rparr>)"
    by (simp_all add: gen0_def terrain0_def terrain_inv_def exp_scale_ok_def)
  show ?thesis
    using h generate_deterministic [OF h, of mh0 1 2 1 3 8 "\<lambda>_ _. 7"] by simp
qed

section \<open>The exponential hash\<close>

text \<open>
  C5 (the code at \<open>x = 0\<close> and at \<open>x = m\<close>). With \<open>omega = 0\<close> the exponential branch is
  taken, and \<^verbatim>\<open>ExpHash(0, y, 0xFFFFFFFF, 0)\<close> is exactly 1 while
  \<^verbatim>\<open>ExpHash(0xFFFFFFFF, y, 0xFFFFFFFF, 0)\<close> is exactly 0: the value is not strictly
  between 0 and 1.
\<close>

theorem ExpHash_omega_reaches_bounds:
  "fst (ExpHash_omega 0 0 0xFFFFFFFF 0 None) = 1 \<and>
   fst (ExpHash_omega 0xFFFFFFFF 0 0xFFFFFFFF 0 None) = 0"
proof -
  have u: "\<not> UniformHash 0 0xFFFFFFFF < 0"
    by (simp add: UniformHash_def to_float_def)
  have l: "ln (0.5 * (to_float 0xFFFFFFFF + 2)) \<noteq> 0"
    by (simp add: to_float_def)
  have "fst (ExpHash 0xFFFFFFFF 0xFFFFFFFF None) = 0"
    using l by (simp add: ExpHash_def Let_def add_divide_distrib)
  moreover have "fst (ExpHash 0 0xFFFFFFFF None) = 1"
    by (simp add: ExpHash_def Let_def to_float_def)
  ultimately show ?thesis
    using u by (simp add: ExpHash_omega_def Let_def)
qed

section \<open>The bound of the noise\<close>

lemma s_curve2_nonneg: "0 \<le> t \<Longrightarrow> 0 \<le> s_curve2 t"
proof -
  assume t: "0 \<le> t"
  have "10 + 3 * t * (2 * t - 5) = 6 * (t - 5 / 4)\<^sup>2 + 5 / 8"
    by (simp add: power2_eq_square algebra_simps)
  then have "0 \<le> 10 + 3 * t * (2 * t - 5)" by simp
  then show ?thesis using t by (simp add: s_curve2_def)
qed

lemma s_curve2_flip: "s_curve2 (1 - t) = 1 - s_curve2 t"
  by (simp add: s_curve2_def algebra_simps power_numeral_reduce)

lemma s_curve2_le1: "t \<le> 1 \<Longrightarrow> s_curve2 t \<le> 1"
  using s_curve2_nonneg[of "1 - t"] by (simp add: s_curve2_flip)

lemma axis_bound:
  assumes "0 \<le> t" and "t \<le> 1"
  shows "t\<^sup>2 + s_curve2 t * (1 - 2 * t) \<le> 1 / 4"
proof -
  define d where "d = 1 / 2 - t"
  have t: "t = 1 / 2 - d" by (simp add: d_def)
  have e: "1 / 4 - (t\<^sup>2 + s_curve2 t * (1 - 2 * t)) = d\<^sup>2 * (11 / 4 - 10 * d\<^sup>2 + 12 * d ^ 4)"
    unfolding t by (simp add: s_curve2_def algebra_simps power_numeral_reduce)
  have "\<bar>d\<bar> \<le> 1 / 2" using assms unfolding d_def by linarith
  then have "d\<^sup>2 \<le> (1 / 2)\<^sup>2" by (metis abs_ge_zero power2_abs power_mono)
  then have "d\<^sup>2 \<le> 1 / 4" by (simp add: power2_eq_square)
  then have "0 \<le> 11 / 4 - 10 * d\<^sup>2 + 12 * d ^ 4" by simp
  then have "0 \<le> d\<^sup>2 * (11 / 4 - 10 * d\<^sup>2 + 12 * d ^ 4)" by simp
  then show ?thesis using e by linarith
qed

lemma lerp_square:
  assumes "0 \<le> w" and "w \<le> 1"
  shows "(lerp w a b)\<^sup>2 \<le> lerp w (a\<^sup>2) (b\<^sup>2)"
proof -
  have "lerp w (a\<^sup>2) (b\<^sup>2) - (lerp w a b)\<^sup>2 = w * (1 - w) * (a - b)\<^sup>2"
    by (simp add: lerp_def power2_eq_square algebra_simps)
  moreover have "0 \<le> w * (1 - w) * (a - b)\<^sup>2" using assms by simp
  ultimately show ?thesis by linarith
qed

lemma lerp_mono:
  assumes "0 \<le> w" and "w \<le> 1" and "a \<le> a'" and "b \<le> b'"
  shows "lerp w a b \<le> lerp w a' b'"
proof -
  have "lerp w a' b' - lerp w a b = (1 - w) * (a' - a) + w * (b' - b)"
    by (simp add: lerp_def algebra_simps)
  moreover have "0 \<le> (1 - w) * (a' - a) + w * (b' - b)" using assms by simp
  ultimately show ?thesis by linarith
qed

lemma dot_square:
  fixes gx gy p q :: real
  assumes "gx\<^sup>2 + gy\<^sup>2 \<le> 1"
  shows "(p * gx + q * gy)\<^sup>2 \<le> p\<^sup>2 + q\<^sup>2"
proof -
  have "(p\<^sup>2 + q\<^sup>2) * (gx\<^sup>2 + gy\<^sup>2) - (p * gx + q * gy)\<^sup>2 = (p * gy - q * gx)\<^sup>2"
    by (simp add: power2_eq_square algebra_simps)
  then have "(p * gx + q * gy)\<^sup>2 \<le> (p\<^sup>2 + q\<^sup>2) * (gx\<^sup>2 + gy\<^sup>2)"
    by (smt (verit) zero_le_power2)
  also have "\<dots> \<le> (p\<^sup>2 + q\<^sup>2) * 1"
    using assms by (intro mult_left_mono) simp_all
  finally show ?thesis by simp
qed


lemma pnoise_square:
  assumes n: "1 \<le> n" and i: "0 \<le> i" "i < n" and j: "0 \<le> j" "j < n"
    and G: "\<And>x y. (fst (G x y))\<^sup>2 + (snd (G x y))\<^sup>2 \<le> 1"
  shows "(pnoise G n x0 y0 i j)\<^sup>2 \<le> 1 / 2"
proof -
  define X where "X = real_of_int j / real_of_int n"
  define Y where "Y = real_of_int i / real_of_int n"
  have n0: "real_of_int n \<noteq> 0" "0 < real_of_int n" using n by simp_all
  have X: "0 \<le> X" "X \<le> 1" using j n by (simp_all add: X_def)
  have Y: "0 \<le> Y" "Y \<le> 1" using i n by (simp_all add: Y_def)
  define u where "u = X * fst (G x0 y0) + Y * snd (G x0 y0)"
  define v where "v = (X - 1) * fst (G x0 (y0 + 1)) + Y * snd (G x0 (y0 + 1))"
  define u' where "u' = X * fst (G (x0 + 1) y0) + (Y - 1) * snd (G (x0 + 1) y0)"
  define v' where "v' = (X - 1) * fst (G (x0 + 1) (y0 + 1)) + (Y - 1) * snd (G (x0 + 1) (y0 + 1))"
  have m: "real_of_int (n - j) * - (c / real_of_int n) = (X - 1) * c"
    "real_of_int (n - i) * - (c / real_of_int n) = (Y - 1) * c"
    "real_of_int j * (c / real_of_int n) = X * c"
    "real_of_int i * (c / real_of_int n) = Y * c" for c
    using n0 by (simp_all add: X_def Y_def field_simps)
  have p: "pnoise G n x0 y0 i j = lerp (s_curve2 Y) (lerp (s_curve2 X) u v) (lerp (s_curve2 X) u' v')"
    unfolding pnoise_def Let_def m u_def v_def u'_def v'_def X_def[symmetric] Y_def[symmetric] ..
  have sX: "0 \<le> s_curve2 X" "s_curve2 X \<le> 1" using X by (simp_all add: s_curve2_nonneg s_curve2_le1)
  have sY: "0 \<le> s_curve2 Y" "s_curve2 Y \<le> 1" using Y by (simp_all add: s_curve2_nonneg s_curve2_le1)
  have du: "u\<^sup>2 \<le> X\<^sup>2 + Y\<^sup>2" unfolding u_def by (rule dot_square[OF G])
  have dv: "v\<^sup>2 \<le> (X - 1)\<^sup>2 + Y\<^sup>2" unfolding v_def by (rule dot_square[OF G])
  have du': "u'\<^sup>2 \<le> X\<^sup>2 + (Y - 1)\<^sup>2" unfolding u'_def by (rule dot_square[OF G])
  have dv': "v'\<^sup>2 \<le> (X - 1)\<^sup>2 + (Y - 1)\<^sup>2" unfolding v'_def by (rule dot_square[OF G])
  have a: "(lerp (s_curve2 X) u v)\<^sup>2 \<le> lerp (s_curve2 X) (X\<^sup>2 + Y\<^sup>2) ((X - 1)\<^sup>2 + Y\<^sup>2)"
    using lerp_square[OF sX, of u v] lerp_mono[OF sX du dv] by linarith
  have b: "(lerp (s_curve2 X) u' v')\<^sup>2 \<le> lerp (s_curve2 X) (X\<^sup>2 + (Y - 1)\<^sup>2) ((X - 1)\<^sup>2 + (Y - 1)\<^sup>2)"
    using lerp_square[OF sX, of u' v'] lerp_mono[OF sX du' dv'] by linarith
  have "(pnoise G n x0 y0 i j)\<^sup>2 \<le>
        lerp (s_curve2 Y) (lerp (s_curve2 X) (X\<^sup>2 + Y\<^sup>2) ((X - 1)\<^sup>2 + Y\<^sup>2))
          (lerp (s_curve2 X) (X\<^sup>2 + (Y - 1)\<^sup>2) ((X - 1)\<^sup>2 + (Y - 1)\<^sup>2))"
    unfolding p
    using lerp_square[OF sY, of "lerp (s_curve2 X) u v" "lerp (s_curve2 X) u' v'"] lerp_mono[OF sY a b]
    by linarith
  also have "\<dots> = (X\<^sup>2 + s_curve2 X * (1 - 2 * X)) + (Y\<^sup>2 + s_curve2 Y * (1 - 2 * Y))"
    by (simp add: lerp_def power2_eq_square algebra_simps)
  also have "\<dots> \<le> 1 / 4 + 1 / 4"
    using axis_bound[OF X] axis_bound[OF Y] by (rule add_mono)
  finally show ?thesis by simp
qed

lemma pnoise_abs:
  assumes "1 \<le> n" and "0 \<le> i" "i < n" and "0 \<le> j" "j < n"
    and "\<And>x y. (fst (G x y))\<^sup>2 + (snd (G x y))\<^sup>2 \<le> 1"
  shows "\<bar>pnoise G n x0 y0 i j\<bar> \<le> 1 / sqrt 2"
proof -
  have "(pnoise G n x0 y0 i j)\<^sup>2 \<le> 1 / 2" using assms by (rule pnoise_square)
  then have "sqrt ((pnoise G n x0 y0 i j)\<^sup>2) \<le> sqrt (1 / 2)" by (rule real_sqrt_le_mono)
  then show ?thesis by (simp add: real_sqrt_divide)
qed

lemma octave_value_abs:
  assumes n: "1 \<le> n" and ab: "in_square (r * n) a b"
    and G: "\<And>x y. (fst (G x y))\<^sup>2 + (snd (G x y))\<^sup>2 \<le> 1"
  shows "\<bar>octave_value G x y n a b\<bar> \<le> 1 / sqrt 2"
proof -
  have "0 < n" using n by simp
  then have "0 \<le> a mod n" "a mod n < n" "0 \<le> b mod n" "b mod n < n" by simp_all
  then show ?thesis unfolding octave_value_def using n G by (intro pnoise_abs)
qed

lemma to_float_range: "0 \<le> to_float x" "to_float x \<le> 4294967295"
proof -
  have "0 \<le> real (unat x)" by (rule of_nat_0_le_iff)
  then show "0 \<le> to_float x" unfolding to_float_def .
  have "unat x < 2 ^ 32" using unsigned_less[of x] by simp
  then have "unat x \<le> 4294967295" by simp
  then have "real (unat x) \<le> real (4294967295::nat)" by (rule iffD2[OF of_nat_le_iff])
  also have "real (4294967295::nat) = 4294967295" by simp
  finally show "to_float x \<le> 4294967295" unfolding to_float_def .
qed

lemma UniformHash_range: "0 \<le> UniformHash x 0xFFFFFFFF" "UniformHash x 0xFFFFFFFF \<le> 1"
proof -
  have m: "to_float (0xFFFFFFFF :: u32) = 4294967295" by (simp add: to_float_def)
  have "(4294967295 :: real) + 2 = 4294967297" by simp
  then have u: "UniformHash x 0xFFFFFFFF = (to_float x + 1) / 4294967297"
    unfolding UniformHash_def m by (rule arg_cong)
  have "0 \<le> to_float x + 1" using to_float_range(1)[of x] by linarith
  then show "0 \<le> UniformHash x 0xFFFFFFFF" unfolding u by (rule divide_nonneg_nonneg) simp
  have "to_float x + 1 \<le> 4294967297" using to_float_range(2)[of x] by linarith
  then have "(to_float x + 1) / 4294967297 \<le> 4294967297 / 4294967297"
    by (rule divide_right_mono) simp
  then show "UniformHash x 0xFFFFFFFF \<le> 1" unfolding u by simp
qed

lemma ExpHash_range:
  "0 \<le> fst (ExpHash x 0xFFFFFFFF None)" "fst (ExpHash x 0xFFFFFFFF None) \<le> 1"
proof -
  have m: "to_float (0xFFFFFFFF :: u32) = 4294967295" by (simp add: to_float_def)
  define L where "L = ln (4294967297 / 2 :: real)"
  define A where "A = ln (to_float x / 2 + 1)"
  have L: "0 < L" unfolding L_def by (rule ln_gt_zero) simp
  have h: "0 \<le> to_float x / 2" using to_float_range(1)[of x] by simp
  then have p: "0 < to_float x / 2 + 1" "1 \<le> to_float x / 2 + 1" by linarith+
  have A0: "0 \<le> A" unfolding A_def using p(2) by (rule ln_ge_zero)
  have "to_float x / 2 \<le> 4294967295 / 2"
    using to_float_range(2)[of x] by (rule divide_right_mono) simp
  then have "to_float x / 2 + 1 \<le> 4294967297 / 2" by linarith
  then have AL: "A \<le> L" unfolding A_def L_def using p(1) by (simp only: ln_le_cancel_iff)
  have v: "fst (ExpHash x 0xFFFFFFFF None) = 1 - A / L"
    by (simp add: ExpHash_def Let_def m A_def L_def add_divide_distrib)
  have "A / L \<le> L / L" using AL L by (intro divide_right_mono) simp_all
  then have "A / L \<le> 1" using L by simp
  moreover have "0 \<le> A / L" using A0 L by (intro divide_nonneg_nonneg) simp_all
  ultimately show "0 \<le> fst (ExpHash x 0xFFFFFFFF None)" "fst (ExpHash x 0xFFFFFFFF None) \<le> 1"
    unfolding v by linarith+
qed

lemma magnitude_range:
  "0 \<le> magnitude mh sd1 sd2 om x y" "magnitude mh sd1 sd2 om x y \<le> 1"
  using UniformHash_range ExpHash_range
  by (simp_all add: magnitude_def ExpHash_omega_def Let_def)

lemma gradient_norm: "(fst (gradient mh sd x y))\<^sup>2 + (snd (gradient mh sd x y))\<^sup>2 \<le> 1"
  by (simp add: gradient_def)

lemma gradient_terrain_norm:
  "(fst (gradient_terrain mh sd sd1 sd2 om x y))\<^sup>2 + (snd (gradient_terrain mh sd sd1 sd2 om x y))\<^sup>2 \<le> 1"
proof -
  define m where "m = magnitude mh sd1 sd2 om x y"
  define t where "t = to_float (mh (hash_key x y) sd)"
  have "(m * cos t)\<^sup>2 + (m * sin t)\<^sup>2 = m\<^sup>2 * ((cos t)\<^sup>2 + (sin t)\<^sup>2)"
    by (simp only: power_mult_distrib distrib_left)
  also have "\<dots> = m\<^sup>2" by simp
  also have "\<dots> \<le> 1" using magnitude_range[of mh sd1 sd2 om x y]
    by (simp add: m_def power_le_one)
  finally show ?thesis by (simp add: gradient_terrain_def m_def t_def)
qed

lemma noise_octaves_bound:
  assumes G: "\<And>x y. (fst (G x y))\<^sup>2 + (snd (G x y))\<^sup>2 \<le> 1"
  shows "0 < scale \<Longrightarrow> scale \<le> 1 \<Longrightarrow> \<bar>c a b\<bar> \<le> (2 - scale) / sqrt 2 \<Longrightarrow>
     0 < fst (noise_octaves G k m1 n r x y scale c) \<and>
     fst (noise_octaves G k m1 n r x y scale c) \<le> 1 \<and>
     \<bar>snd (noise_octaves G k m1 n r x y scale c) a b\<bar>
       \<le> (2 - fst (noise_octaves G k m1 n r x y scale c)) / sqrt 2"
proof (induction "nat (m1 - k)" arbitrary: k n r x y scale c)
  case 0
  then have "\<not> (k < m1 \<and> 2 \<le> n)" by simp
  then show ?case using 0 by (simp add: noise_octaves_stop)
next
  case (Suc d)
  show ?case
  proof (cases "k < m1 \<and> 2 \<le> n")
    case True
    define n' where "n' = half n"
    define s' where "s' = scale * 0.5"
    define c' where "c' = (\<lambda>a b. if in_square ((r + r) * n') a b
            then c a b + s' * octave_value G (x + x) (y + y) n' a b else c a b)"
    have n': "1 \<le> n'" using True by (simp add: n'_def half_ge)
    have s': "0 < s'" "s' \<le> 1" using Suc.prems by (simp_all add: s'_def)
    have "\<bar>c' a b\<bar> \<le> (2 - s') / sqrt 2"
    proof (cases "in_square ((r + r) * n') a b")
      case True
      have "\<bar>octave_value G (x + x) (y + y) n' a b\<bar> \<le> 1 / sqrt 2"
        using n' True G by (rule octave_value_abs)
      then have "s' * \<bar>octave_value G (x + x) (y + y) n' a b\<bar> \<le> s' * (1 / sqrt 2)"
        by (rule mult_left_mono) (use s'(1) in simp)
      then have "\<bar>s' * octave_value G (x + x) (y + y) n' a b\<bar> \<le> s' * (1 / sqrt 2)"
        using s'(1) by (simp only: abs_mult abs_of_pos)
      moreover have "c' a b = c a b + s' * octave_value G (x + x) (y + y) n' a b"
        using True by (simp add: c'_def)
      moreover have "\<bar>c a b + s' * octave_value G (x + x) (y + y) n' a b\<bar>
          \<le> \<bar>c a b\<bar> + \<bar>s' * octave_value G (x + x) (y + y) n' a b\<bar>"
        by (rule abs_triangle_ineq)
      ultimately have "\<bar>c' a b\<bar> \<le> (2 - scale) / sqrt 2 + s' * (1 / sqrt 2)"
        using Suc.prems(3) by linarith
      also have "\<dots> = (2 - s') / sqrt 2" by (simp add: s'_def field_simps)
      finally show ?thesis .
    next
      case False
      have "(2 - scale) / sqrt 2 \<le> (2 - s') / sqrt 2"
        using Suc.prems(1) by (simp add: s'_def divide_right_mono)
      then show ?thesis using False Suc.prems(3) by (simp add: c'_def)
    qed
    moreover have "d = nat (m1 - (k + 1))" using Suc.hyps(2) by simp
    ultimately have "0 < fst (noise_octaves G (k + 1) m1 n' (r + r) (x + x) (y + y) s' c') \<and>
     fst (noise_octaves G (k + 1) m1 n' (r + r) (x + x) (y + y) s' c') \<le> 1 \<and>
     \<bar>snd (noise_octaves G (k + 1) m1 n' (r + r) (x + x) (y + y) s' c') a b\<bar>
       \<le> (2 - fst (noise_octaves G (k + 1) m1 n' (r + r) (x + x) (y + y) s' c')) / sqrt 2"
      using Suc.hyps(1)[of "k + 1" s' c' n' "r + r" "x + x" "y + y"] s' by blast
    then show ?thesis
      unfolding noise_octaves_step[OF conjunct1[OF True] conjunct2[OF True]]
        n'_def[symmetric] s'_def[symmetric] c'_def[symmetric] .
  next
    case False
    then show ?thesis using Suc.prems by (simp add: noise_octaves_stop)
  qed
qed

lemma noise_generate_bound:
  assumes G: "\<And>x y. (fst (G x y))\<^sup>2 + (snd (G x y))\<^sup>2 \<le> 1"
    and n0: "2 \<le> n div 2 ^ nat (m0 - 1)"
    and ab: "in_square (2 ^ nat (m0 - 1) * (n div 2 ^ nat (m0 - 1))) a b"
  shows "\<bar>snd (noise_generate G x y m0 m1 n c) a b * fst (noise_generate G x y m0 m1 n c)\<bar> \<le> 1"
proof -
  define r0 :: int where "r0 = 2 ^ nat (m0 - 1)"
  define n0 where "n0 = n div r0"
  have n0': "2 \<le> n0" using n0 by (simp add: n0_def r0_def)
  have "0 \<le> n"
  proof (rule ccontr)
    assume "\<not> 0 \<le> n"
    then have "n div r0 < 0" by (simp add: pos_imp_zdiv_neg_iff r0_def)
    then show False using n0' by (simp add: n0_def)
  qed
  then have sk: "skip_octaves m0 n = (n0, r0)"
    by (simp add: skip_octaves_eq half_iter_nonneg n0_def r0_def)
  define c1 where "c1 = (\<lambda>a b. if in_square (r0 * n0) a b then octave_value G x y n0 a b else c a b)"
  define s where "s = fst (noise_octaves G m0 m1 n0 r0 x y 1 c1)"
  define c2 where "c2 = snd (noise_octaves G m0 m1 n0 r0 x y 1 c1)"
  have ab': "in_square (r0 * n0) a b" using ab by (simp add: r0_def n0_def)
  have "\<bar>octave_value G x y n0 a b\<bar> \<le> 1 / sqrt 2"
    using n0' ab' G by (intro octave_value_abs[where r=r0]) simp_all
  then have "\<bar>c1 a b\<bar> \<le> (2 - 1) / sqrt 2" using ab' by (simp add: c1_def)
  from noise_octaves_bound[where G=G and scale=1 and c=c1 and a=a and b=b and k=m0 and ?m1.0=m1
      and n=n0 and r=r0 and x=x and y=y, OF G _ _ this]
  have s: "0 < s" "s \<le> 1" and c2: "\<bar>c2 a b\<bar> \<le> (2 - s) / sqrt 2"
    by (simp_all add: s_def c2_def)
  have g: "noise_generate G x y m0 m1 n c = (sqrt 2 / (2 - s), c2)"
    using n0' by (simp add: noise_generate_def sk c1_def s_def c2_def split_beta Let_def cong: if_cong)
  have p: "0 < 2 - s" using s by simp
  have "\<bar>c2 a b * (sqrt 2 / (2 - s))\<bar> = \<bar>c2 a b\<bar> * (sqrt 2 / (2 - s))"
    using p by (simp add: abs_mult)
  also have "\<dots> \<le> (2 - s) / sqrt 2 * (sqrt 2 / (2 - s))"
    using c2 p by (intro mult_right_mono) simp_all
  also have "\<dots> = 1" using p by simp
  finally show ?thesis by (simp add: g)
qed

text \<open>
  C1 (as stated, at a cell entry outside the written square). With granularity 5 and
  first octave 2 the skip loop leaves granularity 2 and 2 subcells per side, so the call
  writes rows and columns 0 to 3 and returns \<open>sqrt 2\<close>; the entry at row 4, column 4 of the
  5 by 5 cell keeps the 7 it held, and 7 times the returned scale is not in \<open>[-1, 1]\<close>.
\<close>

theorem generate_bound_counterexample:
  "\<not> \<bar>snd (snd (generate (initEdgeTables mh0) gen0 0 0 2 2 5 (\<lambda>_ _. 7))) 4 4
        * fst (generate (initEdgeTables mh0) gen0 0 0 2 2 5 (\<lambda>_ _. 7))\<bar> \<le> 1"
proof -
  have n0: "(2::int) \<le> 5 div 2 ^ nat (2 - 1)" by simp
  from generate_form[OF n0, of "initEdgeTables mh0" gen0 0 0 2]
  obtain s g' G where "\<And>c. generate (initEdgeTables mh0) gen0 0 0 2 2 5 c =
     (s, g', \<lambda>a b. if 0 \<le> a \<and> a < 2 ^ nat (2 - 1) * (5 div 2 ^ nat (2 - 1)) \<and>
                      0 \<le> b \<and> b < 2 ^ nat (2 - 1) * (5 div 2 ^ nat (2 - 1))
                   then G a b else c a b)"
    by blast
  then have c: "snd (snd (generate (initEdgeTables mh0) gen0 0 0 2 2 5 (\<lambda>_ _. 7))) 4 4 = 7"
    by simp
  have sk: "skip_octaves 2 5 = (2, 2)"
    by (simp add: skip_octaves_eq half_def)
  have "fst (noise_generate (gradient mh0 (seed gen0)) 0 0 2 2 5 (\<lambda>_ _. 7)) = sqrt 2"
    by (simp add: noise_generate_def sk noise_octaves_stop)
  then have s: "fst (generate (initEdgeTables mh0) gen0 0 0 2 2 5 (\<lambda>_ _. 7)) = sqrt 2"
    by (simp only: generate_classic)
  have "1 < 7 * sqrt 2"
  proof -
    have "1 \<le> sqrt 2" by simp
    then show ?thesis by linarith
  qed
  then show ?thesis unfolding c s by simp
qed

text \<open>
  C1 (amended). In a call that is not degenerate, every entry of the cell in the square
  the call writes (rows and columns below \<open>r0 * n0\<close>, \<open>r0 = 2 ^ (m0 - 1)\<close>,
  \<open>n0 = n div r0\<close>), multiplied by the returned scale, lies in \<open>[-1, 1]\<close>, for the
  generator with unit gradients and for the terrain generator, in real arithmetic.
\<close>

theorem generate_bounded_on_square:
  fixes g :: "'a noise2d_scheme" and t :: "'b terrain_scheme"
  assumes "2 \<le> n div 2 ^ nat (m0 - 1)"
    and "in_square (2 ^ nat (m0 - 1) * (n div 2 ^ nat (m0 - 1))) a b"
    and "exp_scale_ok (exp_scale t)"
  shows "\<bar>snd (snd (generate (initEdgeTables mh) g x y m0 m1 n c)) a b
          * fst (generate (initEdgeTables mh) g x y m0 m1 n c)\<bar> \<le> 1 \<and>
         \<bar>snd (snd (generate (initEdgeTables_terrain mh) t x y m0 m1 n c)) a b
          * fst (generate (initEdgeTables_terrain mh) t x y m0 m1 n c)\<bar> \<le> 1"
  unfolding generate_classic generate_terrain(1,2)[OF assms(3)]
  using noise_generate_bound[where G="gradient mh (seed g)", OF gradient_norm assms(1,2)]
    noise_generate_bound[where G="gradient_terrain mh (seed t) (seed1 t) (seed2 t) (omega t)",
      OF gradient_terrain_norm assms(1,2)]
  by blast

theorem generate_bounded_on_square_witness:
  "(2::int) \<le> 8 div 2 ^ nat (2 - 1) \<and> in_square (2 ^ nat (2 - 1) * (8 div 2 ^ nat (2 - 1))) 3 5 \<and>
   exp_scale_ok (exp_scale terrain0) \<and>
   \<bar>snd (snd (generate (initEdgeTables mh0) gen0 1 2 2 4 8 (\<lambda>_ _. 7))) 3 5
          * fst (generate (initEdgeTables mh0) gen0 1 2 2 4 8 (\<lambda>_ _. 7))\<bar> \<le> 1 \<and>
   \<bar>snd (snd (generate (initEdgeTables_terrain mh0) terrain0 1 2 2 4 8 (\<lambda>_ _. 7))) 3 5
          * fst (generate (initEdgeTables_terrain mh0) terrain0 1 2 2 4 8 (\<lambda>_ _. 7))\<bar> \<le> 1"
proof -
  have h: "(2::int) \<le> 8 div 2 ^ nat (2 - 1)" "in_square (2 ^ nat (2 - 1) * (8 div 2 ^ nat (2 - 1))) 3 5"
    "exp_scale_ok (exp_scale terrain0)"
    by (simp_all add: in_square_def terrain0_def exp_scale_ok_def)
  show ?thesis
    using h generate_bounded_on_square [OF h, of mh0 gen0 1 2 4 "\<lambda>_ _. 7"] by blast
qed

section \<open>The frame of a call\<close>

text \<open>
  C10 (as stated, at granularity 6 with first octave 2). 6 is not a power of two times
  \<open>2 ^ (2 - 1)\<close>: it is neither 2 nor 4 and it is less than 8. The skip loop leaves
  granularity 3 and 2 subcells per side, so the square the call writes has side 6 and is
  the whole 6 by 6 cell: the entries in the last row and the last column, which held 7,
  do not hold 7 after the call. No border strip of the cell stays untouched.
\<close>

theorem generate_frame_counterexample:
  "(6::int) \<noteq> 2 ^ 0 * 2 ^ nat (2 - 1) \<and> (6::int) \<noteq> 2 ^ 1 * 2 ^ nat (2 - 1) \<and>
   (6::int) < 2 ^ 2 * 2 ^ nat (2 - 1) \<and>
   skip_octaves 2 6 = (3, 2) \<and>
   snd (snd (generate (initEdgeTables mh0) gen0 0 0 2 2 6 (\<lambda>_ _. 7))) 5 5 \<noteq> 7 \<and>
   snd (snd (generate (initEdgeTables mh0) gen0 0 0 2 2 6 (\<lambda>_ _. 7))) 5 0 \<noteq> 7 \<and>
   snd (snd (generate (initEdgeTables mh0) gen0 0 0 2 2 6 (\<lambda>_ _. 7))) 0 5 \<noteq> 7"
proof -
  have sk: "skip_octaves 2 6 = (3, 2)"
    by (simp add: skip_octaves_eq half_def)
  have n0: "(2::int) \<le> 6 div 2 ^ nat (2 - 1)" by simp
  have s: "fst (noise_generate (gradient mh0 (seed gen0)) 0 0 2 2 6 (\<lambda>_ _. 7)) = sqrt 2"
    by (simp add: noise_generate_def sk noise_octaves_stop)
  have m: "snd (noise_generate (gradient mh0 (seed gen0)) 0 0 2 2 6 (\<lambda>_ _. 7)) a b \<noteq> 7"
    if ab: "in_square (2 ^ nat (2 - 1) * (6 div 2 ^ nat (2 - 1))) a b" for a b
  proof
    assume e: "snd (noise_generate (gradient mh0 (seed gen0)) 0 0 2 2 6 (\<lambda>_ _. 7)) a b = 7"
    have "\<bar>snd (noise_generate (gradient mh0 (seed gen0)) 0 0 2 2 6 (\<lambda>_ _. 7)) a b
           * fst (noise_generate (gradient mh0 (seed gen0)) 0 0 2 2 6 (\<lambda>_ _. 7))\<bar> \<le> 1"
      using gradient_norm n0 ab by (rule noise_generate_bound)
    then have "7 * sqrt 2 \<le> 1" unfolding e s by simp
    moreover have "1 \<le> sqrt 2" by simp
    ultimately show False by linarith
  qed
  have "in_square (2 ^ nat (2 - 1) * (6 div 2 ^ nat (2 - 1))) 5 5"
    "in_square (2 ^ nat (2 - 1) * (6 div 2 ^ nat (2 - 1))) 5 0"
    "in_square (2 ^ nat (2 - 1) * (6 div 2 ^ nat (2 - 1))) 0 5"
    by (simp_all add: in_square_def)
  then show ?thesis
    using sk by (simp add: generate_classic m)
qed

text \<open>
  C10 (amended). In a call that is not degenerate, with \<open>r0 = 2 ^ (m0 - 1)\<close> and
  \<open>n0 = n div r0\<close> the subcell count and the granularity after the skip loop, an entry of
  the cell whose row or column index is at least \<open>r0 * n0\<close> is the same after the call as
  before: no octave writes there. The square is within the \<open>n\<close> by \<open>n\<close> cell, and it is
  smaller than the cell, so that a border strip stays untouched, exactly when \<open>r0\<close> does
  not divide \<open>n\<close>.
\<close>

theorem generate_frame:
  assumes "2 \<le> n div 2 ^ nat (m0 - 1)"
    and "2 ^ nat (m0 - 1) * (n div 2 ^ nat (m0 - 1)) \<le> a \<or>
         2 ^ nat (m0 - 1) * (n div 2 ^ nat (m0 - 1)) \<le> b"
  shows "snd (snd (generate iet g x y m0 m1 n c)) a b = c a b \<and>
         2 ^ nat (m0 - 1) * (n div 2 ^ nat (m0 - 1)) \<le> n \<and>
         (2 ^ nat (m0 - 1) * (n div 2 ^ nat (m0 - 1)) < n \<longleftrightarrow> \<not> 2 ^ nat (m0 - 1) dvd n)"
proof -
  from generate_form[OF assms(1), of iet g x y m1]
  obtain s g' G where "\<And>c. generate iet g x y m0 m1 n c =
     (s, g', \<lambda>a b. if 0 \<le> a \<and> a < 2 ^ nat (m0 - 1) * (n div 2 ^ nat (m0 - 1)) \<and>
                      0 \<le> b \<and> b < 2 ^ nat (m0 - 1) * (n div 2 ^ nat (m0 - 1))
                   then G a b else c a b)"
    by blast
  then have "snd (snd (generate iet g x y m0 m1 n c)) a b = c a b"
    using assms(2) by auto
  moreover have "(2::int) ^ nat (m0 - 1) * (n div 2 ^ nat (m0 - 1)) = n - n mod 2 ^ nat (m0 - 1)"
    by (simp add: minus_mod_eq_mult_div)
  moreover have "n mod (2::int) ^ nat (m0 - 1) \<noteq> 0 \<Longrightarrow> 0 < n mod (2::int) ^ nat (m0 - 1)"
  proof -
    assume "n mod (2::int) ^ nat (m0 - 1) \<noteq> 0"
    moreover have "0 \<le> n mod (2::int) ^ nat (m0 - 1)" by (rule pos_mod_sign) simp
    ultimately show ?thesis by (rule order.not_eq_order_implies_strict[OF not_sym])
  qed
  ultimately show ?thesis by (auto simp: dvd_eq_mod_eq_0)
qed

theorem generate_frame_witness:
  "(2::int) \<le> 5 div 2 ^ nat (2 - 1) \<and>
   snd (snd (generate (initEdgeTables mh0) gen0 0 0 2 3 5 (\<lambda>_ _. 7))) 4 0 = 7 \<and>
   \<not> (2::int) ^ nat (2 - 1) dvd 5"
proof -
  have h: "(2::int) \<le> 5 div 2 ^ nat (2 - 1)"
    "(2::int) ^ nat (2 - 1) * (5 div 2 ^ nat (2 - 1)) \<le> 4 \<or>
     (2::int) ^ nat (2 - 1) * (5 div 2 ^ nat (2 - 1)) \<le> 0"
    by simp_all
  show ?thesis
    using h generate_frame [OF h, of "initEdgeTables mh0" gen0 0 0 3 "\<lambda>_ _. 7"] by simp
qed

section \<open>Skipping the lower octaves\<close>

lemma noise_octaves_linear:
  "noise_octaves G k m1 n r x y s c =
   (s * fst (noise_octaves G k m1 n r x y 1 (\<lambda>_ _. 0)),
    \<lambda>a b. c a b + s * snd (noise_octaves G k m1 n r x y 1 (\<lambda>_ _. 0)) a b)"
proof (induction "nat (m1 - k)" arbitrary: k n r x y s c)
  case 0
  then have "\<not> (k < m1 \<and> 2 \<le> n)" by simp
  then show ?case by (simp add: noise_octaves_stop)
next
  case (Suc d)
  show ?case
  proof (cases "k < m1 \<and> 2 \<le> n")
    case True
    define n' where "n' = half n"
    define Ov where "Ov = (\<lambda>a b. if in_square ((r + r) * n') a b
                          then octave_value G (x + x) (y + y) n' a b else 0)"
    define N1 where "N1 = noise_octaves G (k + 1) m1 n' (r + r) (x + x) (y + y) 1 (\<lambda>_ _. 0)"
    have d: "d = nat (m1 - (k + 1))" using Suc.hyps(2) by simp
    have c: "(\<lambda>a b. if in_square ((r + r) * n') a b
                 then c a b + t * 0.5 * octave_value G (x + x) (y + y) n' a b else c a b) =
             (\<lambda>a b. c a b + t * 0.5 * Ov a b)" for c :: cell and t
      by (auto simp: Ov_def fun_eq_iff)
    have st: "noise_octaves G k m1 n r x y t c =
              (t * 0.5 * fst N1, \<lambda>a b. c a b + t * 0.5 * Ov a b + t * 0.5 * snd N1 a b)" for t c
      unfolding noise_octaves_step[OF conjunct1[OF True] conjunct2[OF True]] n'_def[symmetric] c
      by (subst Suc.hyps(1)[OF d]) (simp add: N1_def)
    show ?thesis
      unfolding st by (simp add: fun_eq_iff algebra_simps)
  next
    case False
    then show ?thesis by (simp add: noise_octaves_stop)
  qed
qed

lemma noise_octaves_compose:
  "d = nat (k' - k) \<Longrightarrow> k \<le> k' \<Longrightarrow> k' \<le> m1 \<Longrightarrow> (\<forall>j<d. 2 \<le> (half ^^ j) n) \<Longrightarrow>
   noise_octaves G k m1 n r x y s c =
     noise_octaves G k' m1 ((half ^^ d) n) (2 ^ d * r) (2 ^ d * x) (2 ^ d * y)
       (fst (noise_octaves G k k' n r x y s c)) (snd (noise_octaves G k k' n r x y s c)) \<and>
   fst (noise_octaves G k k' n r x y s c) = s / 2 ^ d"
proof (induction d arbitrary: k n r x y s c)
  case 0
  then have "k' = k" by simp
  then show ?case by (simp add: noise_octaves_stop)
next
  case (Suc d)
  have k: "k < k'" "k < m1" using Suc.prems by simp_all
  have n: "2 \<le> n" using Suc.prems(4) by (metis funpow_0 zero_less_Suc)
  have d: "d = nat (k' - (k + 1))" "k + 1 \<le> k'" using Suc.prems by simp_all
  have h: "\<forall>j<d. 2 \<le> (half ^^ j) (half n)"
  proof (intro allI impI)
    fix j assume "j < d"
    then have "Suc j < Suc d" by simp
    then have "2 \<le> (half ^^ Suc j) n" using Suc.prems(4) by blast
    then show "2 \<le> (half ^^ j) (half n)" by (simp only: funpow_Suc_right o_apply)
  qed
  define c1 where "c1 = (\<lambda>a b. if in_square ((r + r) * half n) a b
            then c a b + s * 0.5 * octave_value G (x + x) (y + y) (half n) a b else c a b)"
  have e: "(half ^^ d) (half n) = (half ^^ Suc d) n" by (simp only: funpow_Suc_right o_apply)
  have p: "(2::int) ^ d * (r + r) = 2 ^ Suc d * r" "(2::u32) ^ d * (x + x) = 2 ^ Suc d * x"
    "(2::u32) ^ d * (y + y) = 2 ^ Suc d * y" "s * 0.5 / 2 ^ d = s / 2 ^ Suc d"
    by (simp_all add: algebra_simps)
  from Suc.IH[OF d Suc.prems(3) h, of "r + r" "x + x" "y + y" "s * 0.5" c1]
  show ?case
    unfolding noise_octaves_step[OF k(2) n] noise_octaves_step[OF k(1) n] c1_def[symmetric] e p .
qed


lemma div_pow2_mono:
  fixes n :: int
  assumes "0 \<le> n" and "j \<le> d"
  shows "n div 2 ^ d \<le> n div 2 ^ j"
  using assms by (intro zdiv_mono2) (simp_all add: power_increasing)

lemma noise_skip_equivalence:
  assumes m0: "2 \<le> m0" "m0 \<le> m1"
    and n0: "2 \<le> n div 2 ^ nat (m0 - 1)"
    and ab: "in_square (2 ^ nat (m0 - 1) * (n div 2 ^ nat (m0 - 1))) a b"
  shows "snd (noise_generate G x y 1 m1 n c) a b =
         snd (noise_generate G x y 1 (m0 - 1) n c) a b
         + snd (noise_generate G (2 ^ nat (m0 - 1) * x) (2 ^ nat (m0 - 1) * y) m0 m1 n c') a b
           / 2 ^ nat (m0 - 1)"
proof -
  define d where "d = nat (m0 - 2)"
  have sd: "nat (m0 - 1) = Suc d" using m0(1) by (simp add: d_def)
  define r0 :: int where "r0 = 2 ^ Suc d"
  define n0 where "n0 = n div 2 ^ Suc d"
  define X where "X = 2 ^ Suc d * x"
  define Y where "Y = 2 ^ Suc d * y"
  have n0': "2 \<le> n0" using n0 by (simp only: sd n0_def)
  have ab': "in_square (r0 * n0) a b" using ab by (simp only: sd r0_def n0_def)
  have nn: "0 \<le> n"
  proof (rule ccontr)
    assume "\<not> 0 \<le> n"
    then have "n div 2 ^ Suc d < 0" by (simp add: pos_imp_zdiv_neg_iff)
    then show False using n0' by (simp add: n0_def)
  qed
  have hj: "(half ^^ j) n = n div 2 ^ j" for j by (rule half_iter_nonneg[OF nn])
  have ge: "2 \<le> n div 2 ^ j" if "j \<le> Suc d" for j
    using div_pow2_mono[OF nn that] n0' unfolding n0_def by linarith
  have n2: "2 \<le> n" using ge[of 0] by simp
  \<comment> \<open>the runs from octave 1\<close>
  have sk1: "skip_octaves 1 n = (n, 1)" by (simp add: skip_octaves_eq)
  define c1 where "c1 = (\<lambda>a b. if in_square (1 * n) a b then octave_value G x y n a b else c a b)"
  define NL where "NL = noise_octaves G 1 (m0 - 1) n 1 x y 1 c1"
  have F: "snd (noise_generate G x y 1 m1 n c) = snd (noise_octaves G 1 m1 n 1 x y 1 c1)"
    using n2 by (simp add: noise_generate_def sk1 c1_def split_beta Let_def cong: if_cong)
  have L: "snd (noise_generate G x y 1 (m0 - 1) n c) = snd NL"
    using n2 by (simp add: noise_generate_def sk1 c1_def NL_def split_beta Let_def cong: if_cong)
  \<comment> \<open>the run from octave \<open>m0\<close>\<close>
  have sk: "skip_octaves m0 n = (n0, r0)"
    by (simp only: skip_octaves_eq sd hj n0_def r0_def)
  define Ov where "Ov = octave_value G X Y n0"
  define c1' where "c1' = (\<lambda>a b. if in_square (r0 * n0) a b then Ov a b else c' a b)"
  define N1 where "N1 = noise_octaves G m0 m1 n0 r0 X Y 1 (\<lambda>_ _. 0)"
  have "snd (noise_generate G X Y m0 m1 n c') = snd (noise_octaves G m0 m1 n0 r0 X Y 1 c1')"
    using n0' by (simp add: noise_generate_def sk c1'_def Ov_def split_beta Let_def cong: if_cong)
  also have "\<dots> = (\<lambda>a b. c1' a b + 1 * snd N1 a b)"
    by (subst noise_octaves_linear) (simp add: N1_def)
  finally have S: "snd (noise_generate G X Y m0 m1 n c') a b = Ov a b + snd N1 a b"
    using ab' by (simp add: c1'_def)
  \<comment> \<open>the loop of the full run: up to octave \<open>m0 - 1\<close>, the step to \<open>m0\<close>, the rest\<close>
  have dd: "d = nat (m0 - 1 - 1)" by (simp add: d_def)
  have hyp: "\<forall>j<d. 2 \<le> (half ^^ j) n" using ge by (simp add: hj)
  from noise_octaves_compose[OF dd _ _ hyp, of m1 G 1 x y 1 c1] m0
  have cmp: "noise_octaves G 1 m1 n 1 x y 1 c1 =
     noise_octaves G (m0 - 1) m1 (n div 2 ^ d) (2 ^ d * 1) (2 ^ d * x) (2 ^ d * y) (fst NL) (snd NL)"
    and sL: "fst NL = 1 / 2 ^ d"
    by (simp_all add: NL_def hj)
  have k: "m0 - 1 < m1" using m0 by simp
  have nd: "2 \<le> n div 2 ^ d" by (rule ge) simp
  have hn: "half (n div 2 ^ d) = n0"
    using hj[of "Suc d"] hj[of d] by (simp add: n0_def)
  have p: "(2::int) ^ d * 1 + 2 ^ d * 1 = r0" "2 ^ d * x + 2 ^ d * x = X" "2 ^ d * y + 2 ^ d * y = Y"
    "m0 - 1 + 1 = m0"
    by (simp_all add: r0_def X_def Y_def)
  define c2 where "c2 = (\<lambda>a b. if in_square (r0 * n0) a b then snd NL a b + fst NL * 0.5 * Ov a b
                              else snd NL a b)"
  have "noise_octaves G 1 m1 n 1 x y 1 c1 = noise_octaves G m0 m1 n0 r0 X Y (fst NL * 0.5) c2"
    unfolding cmp noise_octaves_step[OF k nd] hn p Ov_def c2_def ..
  then have "snd (noise_octaves G 1 m1 n 1 x y 1 c1) =
             snd (noise_octaves G m0 m1 n0 r0 X Y (fst NL * 0.5) c2)"
    by (rule arg_cong)
  also have "\<dots> = (\<lambda>a b. c2 a b + fst NL * 0.5 * snd N1 a b)"
    by (subst noise_octaves_linear) (simp add: N1_def)
  finally have "snd (noise_octaves G 1 m1 n 1 x y 1 c1) a b = c2 a b + fst NL * 0.5 * snd N1 a b"
    by (rule fun_cong[OF fun_cong])
  moreover have "c2 a b = snd NL a b + fst NL * 0.5 * Ov a b"
    using ab' by (simp add: c2_def)
  ultimately have "snd (noise_octaves G 1 m1 n 1 x y 1 c1) a b =
      snd NL a b + fst NL * 0.5 * (Ov a b + snd N1 a b)"
    by (simp only: distrib_left add.assoc)
  then show ?thesis
    unfolding F L sd X_def[symmetric] Y_def[symmetric] S sL by simp
qed

lemma pnoise_2_0_1: "pnoise G 2 x0 y0 0 1 = (fst (G x0 y0) - fst (G x0 (y0 + 1))) / 4"
  by (simp add: pnoise_def Let_def lerp_def s_curve2_def field_simps)

lemma cell_skip_2_2_4:
  "snd (noise_generate G x y 2 2 4 c) 0 1 = (fst (G x y) - fst (G x (y + 1))) / 4"
proof -
  have sk: "skip_octaves 2 4 = (2, 2)" by (simp add: skip_octaves_eq half_def)
  show ?thesis
    by (simp add: noise_generate_def sk noise_octaves_stop in_square_def octave_value_def pnoise_2_0_1)
qed

lemma cell_full_1_2_4:
  "snd (noise_generate G x y 1 2 4 c) 0 1 - snd (noise_generate G x y 1 1 4 c) 0 1 =
   (fst (G (x + x) (y + y)) - fst (G (x + x) (y + y + 1))) / 8"
proof -
  have sk: "skip_octaves 1 4 = (4, 1)" by (simp add: skip_octaves_eq)
  have h: "half 4 = 2" by (simp add: half_def)
  have F: "snd (noise_generate G x y 1 2 4 c) 0 1 =
           octave_value G x y 4 0 1 + 0.5 * octave_value G (x + x) (y + y) 2 0 1"
    by (simp add: noise_generate_def sk noise_octaves_step noise_octaves_stop h in_square_def)
  have L: "snd (noise_generate G x y 1 1 4 c) 0 1 = octave_value G x y 4 0 1"
    by (simp add: noise_generate_def sk noise_octaves_stop in_square_def)
  show ?thesis unfolding F L by (simp add: octave_value_def pnoise_2_0_1)
qed

lemma gradient_mh0:
  "fst (gradient mh0 sd 0 0) = 1" "fst (gradient mh0 sd 0 1) = cos 1"
  "fst (gradient mh0 sd 1 0) = 1" "fst (gradient mh0 sd 1 1) = cos 1"
  "fst (gradient mh0 sd 2 0) = cos 1" "fst (gradient mh0 sd 2 1) = cos 1"
  by (simp_all add: gradient_def mh0_def hash_key_def to_float_def)

lemma cos_1_less: "cos (1::real) < 1"
proof -
  have "cos (1::real) < cos 0"
    using pi_ge_two by (intro cos_monotone_0_pi) simp_all
  then show ?thesis by simp
qed

text \<open>
  C2 (as stated, with the stand-in hash). The octaves 2 to 2 of the run from octave 1 are
  what that run adds to the run that stops at octave 1. At the origin \<open>(0, 0)\<close> and the entry
  at row 0, column 1, of a call with granularity 4, the run that starts at octave 2 writes
  twice that amount, not that amount. At the origin \<open>(1, 0)\<close> the run from octave 1 hashes
  the corners \<open>(2, 0)\<close> and \<open>(2, 1)\<close> for its second octave and adds nothing there, while the
  run that starts at octave 2 hashes \<open>(1, 0)\<close> and \<open>(1, 1)\<close> and writes a value that is not 0.
\<close>

theorem skip_equivalence_counterexample:
  "snd (snd (generate (initEdgeTables mh0) gen0 0 0 2 2 4 (\<lambda>_ _. 0))) 0 1 \<noteq>
     snd (snd (generate (initEdgeTables mh0) gen0 0 0 1 2 4 (\<lambda>_ _. 0))) 0 1
     - snd (snd (generate (initEdgeTables mh0) gen0 0 0 1 1 4 (\<lambda>_ _. 0))) 0 1 \<and>
   snd (snd (generate (initEdgeTables mh0) gen0 0 0 2 2 4 (\<lambda>_ _. 0))) 0 1 =
     2 * (snd (snd (generate (initEdgeTables mh0) gen0 0 0 1 2 4 (\<lambda>_ _. 0))) 0 1
          - snd (snd (generate (initEdgeTables mh0) gen0 0 0 1 1 4 (\<lambda>_ _. 0))) 0 1) \<and>
   snd (snd (generate (initEdgeTables mh0) gen0 1 0 1 2 4 (\<lambda>_ _. 0))) 0 1
     - snd (snd (generate (initEdgeTables mh0) gen0 1 0 1 1 4 (\<lambda>_ _. 0))) 0 1 = 0 \<and>
   snd (snd (generate (initEdgeTables mh0) gen0 1 0 2 2 4 (\<lambda>_ _. 0))) 0 1 \<noteq> 0"
proof -
  have "(1 - cos (1::real)) / 4 \<noteq> (1 - cos 1) / 8" "(1 - cos (1::real)) / 4 \<noteq> 0"
    using cos_1_less by simp_all
  then show ?thesis
    by (simp add: generate_classic cell_skip_2_2_4 cell_full_1_2_4 gradient_mh0)
qed

text \<open>
  C2 (amended). Let the call not be degenerate, \<open>2 \<le> m0 \<le> m1\<close>, and \<open>r0 = 2 ^ (m0 - 1)\<close>.
  The run from octave \<open>m0\<close> at the origin \<open>(r0 * x, r0 * y)\<close> writes, at every entry of the
  square of side \<open>r0 * (n div r0)\<close>, \<open>r0\<close> times what the octaves \<open>m0\<close> to \<open>m1\<close> contribute to
  the run from octave 1 at the origin \<open>(x, y)\<close>: the run to octave \<open>m1\<close> is the run to octave
  \<open>m0 - 1\<close> plus the skipping run divided by \<open>r0\<close>, for both generators, in real arithmetic,
  whatever the cell of the skipping run held before.
\<close>

theorem skip_equivalence_scaled:
  fixes gF gL gS :: "'a noise2d_scheme" and tF tL tS :: "'b terrain_scheme"
  assumes "2 \<le> m0" and "m0 \<le> m1" and "2 \<le> n div 2 ^ nat (m0 - 1)"
    and "in_square (2 ^ nat (m0 - 1) * (n div 2 ^ nat (m0 - 1))) a b"
    and "seed gL = seed gF" and "seed gS = seed gF"
    and "terrain_inv sd sd1 sd2 om tF" and "terrain_inv sd sd1 sd2 om tL"
    and "terrain_inv sd sd1 sd2 om tS"
  shows "snd (snd (generate (initEdgeTables mh) gF x y 1 m1 n c)) a b =
         snd (snd (generate (initEdgeTables mh) gL x y 1 (m0 - 1) n c)) a b
         + snd (snd (generate (initEdgeTables mh) gS (2 ^ nat (m0 - 1) * x) (2 ^ nat (m0 - 1) * y)
                  m0 m1 n c')) a b / 2 ^ nat (m0 - 1) \<and>
         snd (snd (generate (initEdgeTables_terrain mh) tF x y 1 m1 n c)) a b =
         snd (snd (generate (initEdgeTables_terrain mh) tL x y 1 (m0 - 1) n c)) a b
         + snd (snd (generate (initEdgeTables_terrain mh) tS (2 ^ nat (m0 - 1) * x)
                  (2 ^ nat (m0 - 1) * y) m0 m1 n c')) a b / 2 ^ nat (m0 - 1)"
proof -
  have e: "exp_scale_ok (exp_scale tF)" "exp_scale_ok (exp_scale tL)" "exp_scale_ok (exp_scale tS)"
    using assms(7-9) by (simp_all add: terrain_inv_def)
  have p: "seed tF = sd" "seed1 tF = sd1" "seed2 tF = sd2" "omega tF = om"
    "seed tL = sd" "seed1 tL = sd1" "seed2 tL = sd2" "omega tL = om"
    "seed tS = sd" "seed1 tS = sd1" "seed2 tS = sd2" "omega tS = om"
    using assms(7-9) by (simp_all add: terrain_inv_def)
  show ?thesis
    unfolding generate_classic generate_terrain(2)[OF e(1)] generate_terrain(2)[OF e(2)]
      generate_terrain(2)[OF e(3)] p assms(5,6)
    using noise_skip_equivalence[OF assms(1-4), of "gradient mh (seed gF)" x y c c']
      noise_skip_equivalence[OF assms(1-4), of "gradient_terrain mh sd sd1 sd2 om" x y c c']
    by blast
qed

theorem skip_equivalence_scaled_witness:
  "(2::int) \<le> 2 \<and> (2::int) \<le> 3 \<and> (2::int) \<le> 8 div 2 ^ nat (2 - 1) \<and>
   in_square (2 ^ nat (2 - 1) * (8 div 2 ^ nat (2 - 1))) 1 2 \<and>
   terrain_inv 9999 (9999 + 9999) (9999 + 314159) (3 / 10) terrain0 \<and>
   snd (snd (generate (initEdgeTables mh0) gen0 3 5 1 3 8 (\<lambda>_ _. 0))) 1 2 =
     snd (snd (generate (initEdgeTables mh0) gen0 3 5 1 (2 - 1) 8 (\<lambda>_ _. 0))) 1 2
     + snd (snd (generate (initEdgeTables mh0) gen0 (2 ^ nat (2 - 1) * 3) (2 ^ nat (2 - 1) * 5)
              2 3 8 (\<lambda>_ _. 7))) 1 2 / 2 ^ nat (2 - 1) \<and>
   snd (snd (generate (initEdgeTables_terrain mh0) terrain0 3 5 1 3 8 (\<lambda>_ _. 0))) 1 2 =
     snd (snd (generate (initEdgeTables_terrain mh0) terrain0 3 5 1 (2 - 1) 8 (\<lambda>_ _. 0))) 1 2
     + snd (snd (generate (initEdgeTables_terrain mh0) terrain0 (2 ^ nat (2 - 1) * 3)
              (2 ^ nat (2 - 1) * 5) 2 3 8 (\<lambda>_ _. 7))) 1 2 / 2 ^ nat (2 - 1)"
proof -
  have h: "(2::int) \<le> 2" "(2::int) \<le> 3" "(2::int) \<le> 8 div 2 ^ nat (2 - 1)"
    "in_square (2 ^ nat (2 - 1) * (8 div 2 ^ nat (2 - 1))) 1 2"
    "terrain_inv 9999 (9999 + 9999) (9999 + 314159) (3 / 10) terrain0"
    by (simp_all add: in_square_def terrain0_def terrain_inv_def exp_scale_ok_def)
  show ?thesis
    using h skip_equivalence_scaled [OF h(1) h(2) h(3) h(4) refl refl h(5) h(5) h(5),
        of mh0 gen0 3 5 "\<lambda>_ _. 0" "\<lambda>_ _. 7"]
    by blast
qed

end
